theory Spec2Isabelle
  imports Main "HOL-Library.Word"
begin

section \<open>Shared vocabulary\<close>

text \<open>
  The repository holds several variants of one transactional-memory engine:
  \<^item> \<^verbatim>\<open>STM.cpp\<close>: class \<^verbatim>\<open>TransactionalMemorySystem\<close>, cells with a modification count,
    three attempts per submission;
  \<^item> \<^verbatim>\<open>advanced.cpp\<close>: class \<^verbatim>\<open>AdvancedTransactionalMemorySystem\<close>, cells with a version
    counter, retry until the commit succeeds;
  \<^item> \<^verbatim>\<open>Financial_transactions.cpp\<close>: class \<^verbatim>\<open>FinancialTransactionSystem\<close>, version
    lists stamped by a global clock, a priority queue of submissions, ten attempts;
  \<^item> \<^verbatim>\<open>HTMvsSTM.cpp\<close>: class \<^verbatim>\<open>HybridTransactionalMemorySystem\<close>, the cells of
    \<^verbatim>\<open>STM.cpp\<close> with a random first-attempt commit, ten attempts.

  Keys (\<^verbatim>\<open>unsigned\<close>) are only compared, so they are natural numbers. Counters that the
  code increments (\<^verbatim>\<open>modificationCount\<close>, \<^verbatim>\<open>version\<close>, \<^verbatim>\<open>globalClock\<close>) are 32-bit words:
  \<open>+ 1\<close> wraps as \<^verbatim>\<open>++\<close> does on \<^verbatim>\<open>unsigned\<close>. Cell values (\<^verbatim>\<open>int\<close>, \<^verbatim>\<open>double\<close>) are only
  copied by the engine, never computed with, so the value type is a parameter \<open>'v\<close>.
\<close>

subsection \<open>Exceptions\<close>

text \<open>The two standard exception classes the sources throw, with their messages.\<close>

datatype error = out_of_range string | runtime_error string

subsection \<open>\<^verbatim>\<open>std::map\<close> as a key-ordered association list\<close>

text \<open>
  \<^verbatim>\<open>m.find(k)\<close> is \<^const>\<open>map_of\<close>. \<^verbatim>\<open>m[k] = v\<close> inserts or overwrites and keeps the keys in
  ascending order, the order in which a range-for visits the entries.
\<close>

fun map_assign :: "('k::linorder \<times> 'a) list \<Rightarrow> 'k \<Rightarrow> 'a \<Rightarrow> ('k \<times> 'a) list" where
  "map_assign [] k v = [(k, v)]"
| "map_assign ((k', v') # m) k v =
     (if k < k' then (k, v) # (k', v') # m
      else if k = k' then (k, v) # m
      else (k', v') # map_assign m k v)"

text \<open>\<^verbatim>\<open>m.emplace(k, v)\<close> inserts only when the key is absent, and never throws.\<close>

definition map_emplace :: "('k::linorder \<times> 'a) list \<Rightarrow> 'k \<Rightarrow> 'a \<Rightarrow> ('k \<times> 'a) list" where
  "map_emplace m k v = (case map_of m k of None \<Rightarrow> map_assign m k v | Some _ \<Rightarrow> m)"

subsection \<open>Transactional closures\<close>

text \<open>
  A closure \<^verbatim>\<open>std::function<void(Transaction&)>\<close> reaches the engine only through the
  transaction's read and write operations, and may throw. It is a tree: what it does
  next depends on the values it has read. An exception thrown by a read leaves the
  closure (none of the closures in the sources catches one).
\<close>

datatype 'v transactionLogic =
    Return
  | Throw error
  | Read nat "'v \<Rightarrow> 'v transactionLogic"
  | Write nat 'v "'v transactionLogic"

primrec runLogic ::
  "('t \<Rightarrow> nat \<Rightarrow> error + ('v \<times> 't)) \<Rightarrow> ('t \<Rightarrow> nat \<Rightarrow> 'v \<Rightarrow> 't) \<Rightarrow> 'v transactionLogic \<Rightarrow> 't \<Rightarrow> error + 't"
where
  "runLogic rd wr Return = (\<lambda>tx. Inr tx)"
| "runLogic rd wr (Throw e) = (\<lambda>tx. Inl e)"
| "runLogic rd wr (Read k f) =
     (\<lambda>tx. case rd tx k of Inl e \<Rightarrow> Inl e | Inr (v, tx') \<Rightarrow> runLogic rd wr (f v) tx')"
| "runLogic rd wr (Write k v p) = (\<lambda>tx. runLogic rd wr p (wr tx k v))"

section \<open>\<^verbatim>\<open>STM.cpp\<close>: cells with a modification count\<close>

record 'v DataCell =
  content :: 'v
  modificationCount :: "32 word"

type_synonym 'v dataStore = "(nat \<times> 'v DataCell) list"

record 'v MemoryTransaction =
  readLog :: "(nat \<times> 32 word) list"
  writeBuffer :: "(nat \<times> 'v) list"

definition newMemoryTransaction :: "'v MemoryTransaction" where
  "newMemoryTransaction = \<lparr>readLog = [], writeBuffer = []\<rparr>"

definition fetch ::
  "'v MemoryTransaction \<Rightarrow> 'v dataStore \<Rightarrow> nat \<Rightarrow> error + ('v \<times> 'v MemoryTransaction)" where
  "fetch tx ds location =
     (case map_of (writeBuffer tx) location of
        Some v \<Rightarrow> Inr (v, tx)
      | None \<Rightarrow>
          (case map_of ds location of
             None \<Rightarrow> Inl (out_of_range ''Memory location not initialized'')
           | Some cell \<Rightarrow>
               Inr (content cell,
                    tx\<lparr>readLog := map_assign (readLog tx) location (modificationCount cell)\<rparr>)))"

definition store :: "'v MemoryTransaction \<Rightarrow> nat \<Rightarrow> 'v \<Rightarrow> 'v MemoryTransaction" where
  "store tx location v = tx\<lparr>writeBuffer := map_assign (writeBuffer tx) location v\<rparr>"

text \<open>The first loop of \<^verbatim>\<open>finalizeTransaction\<close>: \<open>False\<close> is the early \<^verbatim>\<open>return false\<close>.\<close>

fun validateReadLog :: "(nat \<times> 32 word) list \<Rightarrow> 'v dataStore \<Rightarrow> bool" where
  "validateReadLog [] ds = True"
| "validateReadLog ((loc, modCount) # entries) ds =
     (case map_of ds loc of
        None \<Rightarrow> False
      | Some cell \<Rightarrow>
          if modificationCount cell \<noteq> modCount then False else validateReadLog entries ds)"

text \<open>The second loop: a missing cell is created with count 0, an existing one is
  overwritten and its count incremented.\<close>

fun applyWriteBuffer :: "(nat \<times> 'v) list \<Rightarrow> 'v dataStore \<Rightarrow> 'v dataStore" where
  "applyWriteBuffer [] ds = ds"
| "applyWriteBuffer ((loc, newValue) # entries) ds =
     applyWriteBuffer entries
       (case map_of ds loc of
          None \<Rightarrow> map_emplace ds loc \<lparr>content = newValue, modificationCount = 0\<rparr>
        | Some cell \<Rightarrow>
            map_assign ds loc
              (cell\<lparr>content := newValue, modificationCount := modificationCount cell + 1\<rparr>))"

definition finalizeTransaction :: "'v MemoryTransaction \<Rightarrow> 'v dataStore \<Rightarrow> bool \<times> 'v dataStore" where
  "finalizeTransaction tx ds =
     (if validateReadLog (readLog tx) ds then (True, applyWriteBuffer (writeBuffer tx) ds)
      else (False, ds))"

text \<open>\<^verbatim>\<open>initializeMemory\<close> is one \<^verbatim>\<open>emplace\<close>; it has no failure path, so the result is
  always \<open>Inr\<close>.\<close>

definition initializeMemory :: "'v dataStore \<Rightarrow> nat \<Rightarrow> 'v \<Rightarrow> error + 'v dataStore" where
  "initializeMemory ds location v =
     Inr (map_emplace ds location \<lparr>content = v, modificationCount = 0\<rparr>)"

text \<open>
  \<^verbatim>\<open>executeTransaction\<close>. Other threads run between the closure and the commit; what they
  have done to the store by the time attempt \<open>n\<close> takes the global lock is \<open>env n\<close>. The
  second component of the result counts the calls of the closure. An exception of the
  closure is not caught and leaves \<^verbatim>\<open>executeTransaction\<close>.
\<close>

function executeTransaction_from ::
  "(nat \<Rightarrow> 'v dataStore \<Rightarrow> 'v dataStore) \<Rightarrow> 'v transactionLogic \<Rightarrow> nat \<Rightarrow> 'v dataStore
   \<Rightarrow> (error + unit) \<times> nat \<times> 'v dataStore" where
  "executeTransaction_from env transactionLogic attempts ds =
     (if attempts < 3 then
        (case runLogic (\<lambda>tx. fetch tx ds) store transactionLogic newMemoryTransaction of
           Inl e \<Rightarrow> (Inl e, attempts + 1, ds)
         | Inr transaction \<Rightarrow>
             (let r = finalizeTransaction transaction (env attempts ds) in
              if fst r then (Inr (), attempts + 1, snd r)
              else executeTransaction_from env transactionLogic (attempts + 1) (snd r)))
      else (Inl (runtime_error ''Transaction failed after multiple attempts''), attempts, ds))"
  by pat_completeness auto
termination
  by (relation "measure (\<lambda>(env, l, attempts, ds). 3 - attempts)") auto

declare executeTransaction_from.simps [simp del]

definition executeTransaction ::
  "(nat \<Rightarrow> 'v dataStore \<Rightarrow> 'v dataStore) \<Rightarrow> 'v transactionLogic \<Rightarrow> 'v dataStore
   \<Rightarrow> (error + unit) \<times> nat \<times> 'v dataStore" where
  "executeTransaction env transactionLogic ds = executeTransaction_from env transactionLogic 0 ds"

section \<open>\<^verbatim>\<open>Financial_transactions.cpp\<close>: version lists and a global clock\<close>

subsection \<open>Library functions the source calls\<close>

text \<open>
  \<^verbatim>\<open>std::lower_bound(first, last, value, comp)\<close> is the library's binary search: it
  halves the range, moving right while \<^verbatim>\<open>comp(*middle, value)\<close> holds. \<open>below\<close> is
  \<^verbatim>\<open>comp(_, value)\<close>; the result is an index into the range, \<open>length xs\<close> for \<^verbatim>\<open>last\<close>.
\<close>

function lower_bound_from :: "'a list \<Rightarrow> ('a \<Rightarrow> bool) \<Rightarrow> nat \<Rightarrow> nat \<Rightarrow> nat" where
  "lower_bound_from xs below first len =
     (if 0 < len then
        (if below (xs ! (first + len div 2))
         then lower_bound_from xs below (first + len div 2 + 1) (len - len div 2 - 1)
         else lower_bound_from xs below first (len div 2))
      else first)"
  by pat_completeness auto
termination
  by (relation "measure (\<lambda>(xs, below, first, len). len)") auto

declare lower_bound_from.simps [simp del]

definition lower_bound :: "'a list \<Rightarrow> ('a \<Rightarrow> bool) \<Rightarrow> nat" where
  "lower_bound xs below = lower_bound_from xs below 0 (length xs)"

text \<open>\<^verbatim>\<open>std::to_string\<close> on an \<^verbatim>\<open>unsigned\<close>: the decimal digits.\<close>

fun to_string :: "nat \<Rightarrow> string" where
  "to_string n =
     (if n < 10 then [char_of (48 + n)] else to_string (n div 10) @ [char_of (48 + n mod 10)])"

declare to_string.simps [simp del]

text \<open>\<^verbatim>\<open>e.what()\<close>.\<close>

fun what :: "error \<Rightarrow> string" where
  "what (out_of_range m) = m"
| "what (runtime_error m) = m"

text \<open>
  \<^verbatim>\<open>std::priority_queue<T, vector<T>, Compare>\<close>, by its contract: \<^verbatim>\<open>top()\<close> is an element
  that \<^verbatim>\<open>Compare\<close> puts below no other, \<^verbatim>\<open>pop()\<close> removes it. \<open>pq_extract\<close> is
  \<^verbatim>\<open>top()\<close> followed by \<^verbatim>\<open>pop()\<close>; \<open>None\<close> on the empty queue.
\<close>

fun pq_extract :: "('a \<Rightarrow> 'a \<Rightarrow> bool) \<Rightarrow> 'a list \<Rightarrow> ('a \<times> 'a list) option" where
  "pq_extract cmp [] = None"
| "pq_extract cmp (x # xs) =
     (case pq_extract cmp xs of
        None \<Rightarrow> Some (x, [])
      | Some (m, rest) \<Rightarrow> if cmp x m then Some (m, x # rest) else Some (x, m # rest))"

subsection \<open>The system\<close>

text \<open>\<^verbatim>\<open>startTime\<close> is a \<^verbatim>\<open>steady_clock::time_point\<close>: a signed tick count, only compared.
  \<^verbatim>\<open>priority\<close> is an \<^verbatim>\<open>int\<close>, only compared.\<close>

record 'v TransactionInfo =
  logic :: "'v transactionLogic"
  priority :: int
  description :: string
  startTime :: int

definition CompareTransactionInfo :: "'v TransactionInfo \<Rightarrow> 'v TransactionInfo \<Rightarrow> bool" where
  "CompareTransactionInfo lhs rhs =
     (if priority lhs \<noteq> priority rhs then priority lhs < priority rhs
      else startTime lhs > startTime rhs)"

text \<open>The fields of \<^verbatim>\<open>FinancialTransactionSystem\<close> that carry data (locks, threads, the
  condition variable and the unused random generator are left out).\<close>

record 'v FinancialTransactionSystem =
  versionedData :: "(nat \<times> (32 word \<times> 'v) list) list"
  transactionQueue :: "'v TransactionInfo list"
  globalClock :: "32 word"
  activeTransactions :: int

text \<open>\<^verbatim>\<open>versionedData[accountId]\<close>: the entry, created empty when absent.\<close>

definition subscript :: "(nat \<times> 'a list) list \<Rightarrow> nat \<Rightarrow> 'a list" where
  "subscript m k = (case map_of m k of None \<Rightarrow> [] | Some vs \<Rightarrow> vs)"

text \<open>\<^verbatim>\<open>createAccount\<close> has no failure path either.\<close>

definition createAccount ::
  "'v FinancialTransactionSystem \<Rightarrow> nat \<Rightarrow> 'v \<Rightarrow> error + 'v FinancialTransactionSystem" where
  "createAccount sys accountId initialBalance =
     Inr (sys\<lparr>versionedData :=
            map_assign (versionedData sys) accountId
              (subscript (versionedData sys) accountId @ [(0, initialBalance)])\<rparr>)"

text \<open>\<^verbatim>\<open>endTimestamp\<close> is written and read only inside \<^verbatim>\<open>commit\<close>; it is a local there.\<close>

record 'v Transaction =
  readSet :: "(nat \<times> ('v \<times> 32 word)) list"
  writeSet :: "(nat \<times> 'v) list"
  startTimestamp :: "32 word"

definition newTransaction :: "'v FinancialTransactionSystem \<Rightarrow> 'v Transaction" where
  "newTransaction sys = \<lparr>readSet = [], writeSet = [], startTimestamp = globalClock sys\<rparr>"

definition readBalance ::
  "'v Transaction \<Rightarrow> 'v FinancialTransactionSystem \<Rightarrow> nat \<Rightarrow> error + ('v \<times> 'v Transaction)" where
  "readBalance tx sys accountId =
     (case map_of (writeSet tx) accountId of
        Some v \<Rightarrow> Inr (v, tx)
      | None \<Rightarrow>
          (case map_of (versionedData sys) accountId of
             None \<Rightarrow> Inl (out_of_range ''Account not found'')
           | Some versions \<Rightarrow>
               (let r = rev versions;
                    versionIt = lower_bound r (\<lambda>a. fst a > startTimestamp tx)
                in if versionIt = length r
                   then Inl (runtime_error
                               (''No valid version found for account '' @ to_string accountId))
                   else Inr (snd (r ! versionIt),
                             tx\<lparr>readSet := map_assign (readSet tx) accountId
                                             (snd (r ! versionIt), fst (r ! versionIt))\<rparr>))))"

definition updateBalance :: "'v Transaction \<Rightarrow> nat \<Rightarrow> 'v \<Rightarrow> 'v Transaction" where
  "updateBalance tx accountId newBalance =
     tx\<lparr>writeSet := map_assign (writeSet tx) accountId newBalance\<rparr>"

text \<open>The validation loop of \<^verbatim>\<open>commit\<close>. \<^verbatim>\<open>versionedData[accountId]\<close> may create an empty
  entry, so the map is threaded through; \<open>False\<close> is the early \<^verbatim>\<open>return false\<close>.\<close>

fun validateReadSet ::
  "(nat \<times> ('v \<times> 32 word)) list \<Rightarrow> 32 word \<Rightarrow> (nat \<times> (32 word \<times> 'v) list) list
   \<Rightarrow> bool \<times> (nat \<times> (32 word \<times> 'v) list) list" where
  "validateReadSet [] endTimestamp vd = (True, vd)"
| "validateReadSet ((accountId, (readValue, readVersion)) # entries) endTimestamp vd =
     (let versions = subscript vd accountId;
          vd' = map_emplace vd accountId [];
          it = lower_bound versions (\<lambda>a. fst a < endTimestamp)
      in if it \<noteq> 0 \<and> fst (versions ! (it - 1)) > readVersion then (False, vd')
         else validateReadSet entries endTimestamp vd')"

fun applyWriteSet ::
  "(nat \<times> 'v) list \<Rightarrow> 32 word \<Rightarrow> (nat \<times> (32 word \<times> 'v) list) list
   \<Rightarrow> (nat \<times> (32 word \<times> 'v) list) list" where
  "applyWriteSet [] endTimestamp vd = vd"
| "applyWriteSet ((accountId, newBalance) # entries) endTimestamp vd =
     applyWriteSet entries endTimestamp
       (map_assign vd accountId (subscript vd accountId @ [(endTimestamp, newBalance)]))"

definition commit ::
  "'v Transaction \<Rightarrow> 'v FinancialTransactionSystem \<Rightarrow> bool \<times> 'v FinancialTransactionSystem" where
  "commit tx sys =
     (let endTimestamp = globalClock sys + 1;
          r = validateReadSet (readSet tx) endTimestamp (versionedData sys)
      in if fst r
         then (True, sys\<lparr>versionedData := applyWriteSet (writeSet tx) endTimestamp (snd r),
                         globalClock := endTimestamp\<rparr>)
         else (False, sys\<lparr>versionedData := snd r, globalClock := endTimestamp\<rparr>))"

subsection \<open>Scheduling and the worker\<close>

text \<open>\<open>now\<close> is the reading of \<^verbatim>\<open>steady_clock::now()\<close> taken by the constructor of
  \<^verbatim>\<open>TransactionInfo\<close>.\<close>

definition scheduleTransaction ::
  "'v FinancialTransactionSystem \<Rightarrow> int \<Rightarrow> 'v transactionLogic \<Rightarrow> int \<Rightarrow> string
   \<Rightarrow> 'v FinancialTransactionSystem" where
  "scheduleTransaction sys now transactionLogic p desc =
     sys\<lparr>transactionQueue :=
           transactionQueue sys @
             [\<lparr>logic = transactionLogic, priority = p, description = desc, startTime = now\<rparr>],
         activeTransactions := activeTransactions sys + 1\<rparr>"

text \<open>
  What one pass of the worker leaves behind: the two locals \<^verbatim>\<open>success\<close> and \<^verbatim>\<open>attempts\<close>,
  the lines written to \<^verbatim>\<open>cout\<close>, the system, and the number of times the closure was
  called (a counter of the model, incremented at \<^verbatim>\<open>transactionInfo->logic(tx)\<close>).
\<close>

record 'v workerRun =
  success :: bool
  attempts :: nat
  closureCalls :: nat
  cout :: "string list"
  after :: "'v FinancialTransactionSystem"

text \<open>
  The retry loop of \<^verbatim>\<open>workerFunction\<close>, \<^verbatim>\<open>maxAttempts = 10\<close>. The closure reads the system
  as it is when the attempt starts; \<open>env n\<close> is what other threads have done to it by
  the time attempt \<open>n\<close> commits or, when the closure throws, by the time the attempt is
  given up: the next attempt reads the shared system as it then is. Every
  \<^verbatim>\<open>std::exception\<close> is caught, printed and counted as a failed attempt.
\<close>

function retryLoop ::
  "(nat \<Rightarrow> 'v FinancialTransactionSystem \<Rightarrow> 'v FinancialTransactionSystem)
   \<Rightarrow> 'v transactionLogic \<Rightarrow> nat \<Rightarrow> nat \<Rightarrow> string list \<Rightarrow> 'v FinancialTransactionSystem
   \<Rightarrow> 'v workerRun" where
  "retryLoop env l n calls out sys =
     (if n < 10 then
        (case runLogic (\<lambda>tx. readBalance tx sys) updateBalance l (newTransaction sys) of
           Inl e \<Rightarrow>
             retryLoop env l (n + 1) (calls + 1) (out @ [''Transaction error: '' @ what e])
               (env n sys)
         | Inr tx \<Rightarrow>
             (let r = commit tx (env n sys) in
              if fst r
              then \<lparr>success = True, attempts = n, closureCalls = calls + 1, cout = out,
                    after = snd r\<rparr>
              else retryLoop env l (n + 1) (calls + 1) out (snd r)))
      else \<lparr>success = False, attempts = n, closureCalls = calls, cout = out, after = sys\<rparr>)"
  by pat_completeness auto
termination
  by (relation "measure (\<lambda>(env, l, n, calls, out, sys). 10 - n)") auto

declare retryLoop.simps [simp del]

text \<open>One pass of \<^verbatim>\<open>workerFunction\<close> on a non-empty queue: take the top descriptor, run the
  retry loop, print the verdict, decrement \<^verbatim>\<open>activeTransactions\<close>. On an empty queue
  the worker waits: \<open>None\<close>.\<close>

definition workerFunction ::
  "(nat \<Rightarrow> 'v FinancialTransactionSystem \<Rightarrow> 'v FinancialTransactionSystem)
   \<Rightarrow> 'v FinancialTransactionSystem \<Rightarrow> ('v TransactionInfo \<times> 'v workerRun) option" where
  "workerFunction env sys =
     (case pq_extract CompareTransactionInfo (transactionQueue sys) of
        None \<Rightarrow> None
      | Some (transactionInfo, rest) \<Rightarrow>
          (let r = retryLoop env (logic transactionInfo) 0 0 [] (sys\<lparr>transactionQueue := rest\<rparr>);
               verdict =
                 (if success r then ''Transaction succeeded: '' @ description transactionInfo
                  else ''Transaction failed after '' @ to_string 10 @ '' attempts: ''
                       @ description transactionInfo)
           in Some (transactionInfo,
                    r\<lparr>cout := cout r @ [verdict],
                      after := (after r)\<lparr>activeTransactions :=
                                           activeTransactions (after r) - 1\<rparr>\<rparr>)))"

section \<open>\<^verbatim>\<open>advanced.cpp\<close>: cells with a version counter\<close>

record 'v VersionedCell =
  cellContent :: 'v
  version :: "32 word"

record 'v SpecTransaction =
  readSetA :: "(nat \<times> ('v \<times> 32 word)) list"
  writeSetA :: "(nat \<times> 'v) list"
  isSpeculative :: bool

definition newSpecTransaction :: "bool \<Rightarrow> 'v SpecTransaction" where
  "newSpecTransaction speculative =
     \<lparr>readSetA = [], writeSetA = [], isSpeculative = speculative\<rparr>"

definition initializeMemoryA ::
  "(nat \<times> 'v VersionedCell) list \<Rightarrow> nat \<Rightarrow> 'v \<Rightarrow> error + (nat \<times> 'v VersionedCell) list" where
  "initializeMemoryA ds location v = Inr (map_emplace ds location \<lparr>cellContent = v, version = 0\<rparr>)"

definition readA ::
  "'v SpecTransaction \<Rightarrow> (nat \<times> 'v VersionedCell) list \<Rightarrow> nat
   \<Rightarrow> error + ('v \<times> 'v SpecTransaction)" where
  "readA tx ds location =
     (case map_of (writeSetA tx) location of
        Some v \<Rightarrow> Inr (v, tx)
      | None \<Rightarrow>
          (case map_of ds location of
             None \<Rightarrow> Inl (out_of_range ''Memory location not initialized'')
           | Some cell \<Rightarrow>
               Inr (cellContent cell,
                    tx\<lparr>readSetA := map_assign (readSetA tx) location
                                     (cellContent cell, version cell)\<rparr>)))"

definition writeA :: "'v SpecTransaction \<Rightarrow> nat \<Rightarrow> 'v \<Rightarrow> 'v SpecTransaction" where
  "writeA tx location v = tx\<lparr>writeSetA := map_assign (writeSetA tx) location v\<rparr>"

fun validateReadSetA ::
  "(nat \<times> ('v \<times> 32 word)) list \<Rightarrow> (nat \<times> 'v VersionedCell) list \<Rightarrow> bool" where
  "validateReadSetA [] ds = True"
| "validateReadSetA ((loc, (readValue, readVersion)) # entries) ds =
     (case map_of ds loc of
        None \<Rightarrow> False
      | Some cell \<Rightarrow> if version cell \<noteq> readVersion then False else validateReadSetA entries ds)"

fun applyWriteSetA ::
  "(nat \<times> 'v) list \<Rightarrow> (nat \<times> 'v VersionedCell) list \<Rightarrow> (nat \<times> 'v VersionedCell) list" where
  "applyWriteSetA [] ds = ds"
| "applyWriteSetA ((loc, newValue) # entries) ds =
     applyWriteSetA entries
       (case map_of ds loc of
          None \<Rightarrow> map_emplace ds loc \<lparr>cellContent = newValue, version = 0\<rparr>
        | Some cell \<Rightarrow>
            map_assign ds loc (cell\<lparr>cellContent := newValue, version := version cell + 1\<rparr>))"

definition commitA ::
  "'v SpecTransaction \<Rightarrow> (nat \<times> 'v VersionedCell) list
   \<Rightarrow> bool \<times> (nat \<times> 'v VersionedCell) list" where
  "commitA tx ds =
     (if validateReadSetA (readSetA tx) ds then (True, applyWriteSetA (writeSetA tx) ds)
      else (False, ds))"

text \<open>
  The task that \<^verbatim>\<open>executeTransaction\<close> queues: \<^verbatim>\<open>while (!success)\<close>, with no bound on the
  number of attempts, so the loop need not end: \<open>None\<close> is "never returns". \<open>n\<close> counts
  the passes already made (the source keeps no counter); \<open>env n\<close> is as above. The
  result carries the number of calls of the closure.
\<close>

partial_function (option) executeTransactionA ::
  "(nat \<Rightarrow> (nat \<times> 'v VersionedCell) list \<Rightarrow> (nat \<times> 'v VersionedCell) list)
   \<Rightarrow> 'v transactionLogic \<Rightarrow> nat \<Rightarrow> (nat \<times> 'v VersionedCell) list
   \<Rightarrow> ((error + unit) \<times> nat \<times> (nat \<times> 'v VersionedCell) list) option" where
  "executeTransactionA env transactionLogic n ds =
     (case runLogic (\<lambda>tx. readA tx ds) writeA transactionLogic (newSpecTransaction False) of
        Inl e \<Rightarrow> Some (Inl e, n + 1, ds)
      | Inr tx \<Rightarrow>
          (let r = commitA tx (env n ds) in
           if fst r then Some (Inr (), n + 1, snd r)
           else executeTransactionA env transactionLogic (n + 1) (snd r)))"

section \<open>\<^verbatim>\<open>HTMvsSTM.cpp\<close>: a random first attempt\<close>

text \<open>
  \<^verbatim>\<open>DataCell\<close> is the one of \<^verbatim>\<open>STM.cpp\<close>. The random generator is read only through
  \<^verbatim>\<open>dis(rng) < 0.9\<close>: \<open>htm i\<close> is the outcome of the \<open>i\<close>-th such test, and \<open>draws\<close> counts
  the tests made so far.
\<close>

record 'v HybridTransactionalMemorySystem =
  dataStore :: "'v dataStore"
  useHTM :: bool
  draws :: nat

record 'v HybridTransaction =
  readLogH :: "(nat \<times> 32 word) list"
  writeBufferH :: "(nat \<times> 'v) list"
  isHTM :: bool

definition newHybridTransaction :: "bool \<Rightarrow> 'v HybridTransaction" where
  "newHybridTransaction htmFlag = \<lparr>readLogH = [], writeBufferH = [], isHTM = htmFlag\<rparr>"

definition fetchH ::
  "'v HybridTransaction \<Rightarrow> 'v HybridTransactionalMemorySystem \<Rightarrow> nat
   \<Rightarrow> error + ('v \<times> 'v HybridTransaction)" where
  "fetchH tx sys location =
     (case map_of (writeBufferH tx) location of
        Some v \<Rightarrow> Inr (v, tx)
      | None \<Rightarrow>
          (case map_of (dataStore sys) location of
             None \<Rightarrow> Inl (out_of_range ''Memory location not initialized'')
           | Some cell \<Rightarrow>
               Inr (content cell,
                    if \<not> isHTM tx
                    then tx\<lparr>readLogH := map_assign (readLogH tx) location (modificationCount cell)\<rparr>
                    else tx)))"

definition storeH :: "'v HybridTransaction \<Rightarrow> nat \<Rightarrow> 'v \<Rightarrow> 'v HybridTransaction" where
  "storeH tx location v = tx\<lparr>writeBufferH := map_assign (writeBufferH tx) location v\<rparr>"

text \<open>The two loops of \<^verbatim>\<open>finalizeSTM\<close> are those of \<^verbatim>\<open>finalizeTransaction\<close> in \<^verbatim>\<open>STM.cpp\<close>,
  and the loop of \<^verbatim>\<open>finalizeHTM\<close> is the second of them.\<close>

definition finalizeSTM ::
  "'v HybridTransaction \<Rightarrow> 'v HybridTransactionalMemorySystem
   \<Rightarrow> bool \<times> 'v HybridTransactionalMemorySystem" where
  "finalizeSTM tx sys =
     (if validateReadLog (readLogH tx) (dataStore sys)
      then (True, sys\<lparr>dataStore := applyWriteBuffer (writeBufferH tx) (dataStore sys)\<rparr>)
      else (False, sys))"

definition finalizeHTM ::
  "(nat \<Rightarrow> bool) \<Rightarrow> 'v HybridTransaction \<Rightarrow> 'v HybridTransactionalMemorySystem
   \<Rightarrow> bool \<times> 'v HybridTransactionalMemorySystem" where
  "finalizeHTM htm tx sys =
     (if htm (draws sys)
      then (True, sys\<lparr>dataStore := applyWriteBuffer (writeBufferH tx) (dataStore sys),
                      draws := draws sys + 1\<rparr>)
      else (False, sys\<lparr>draws := draws sys + 1\<rparr>))"

definition finalize ::
  "(nat \<Rightarrow> bool) \<Rightarrow> 'v HybridTransaction \<Rightarrow> 'v HybridTransactionalMemorySystem
   \<Rightarrow> bool \<times> 'v HybridTransactionalMemorySystem" where
  "finalize htm tx sys = (if isHTM tx then finalizeHTM htm tx sys else finalizeSTM tx sys)"

text \<open>
  \<^verbatim>\<open>executeTransaction\<close> of the hybrid system, \<^verbatim>\<open>maxAttempts = 10\<close>: the result is the
  returned \<^verbatim>\<open>success\<close>, the number of calls of the closure, and the system. Every
  \<^verbatim>\<open>std::exception\<close> is caught and counted as a failed attempt; \<open>env n\<close> is what other
  threads have done by the time attempt \<open>n\<close> finalizes or is given up.
\<close>

function executeTransactionH_from ::
  "(nat \<Rightarrow> bool) \<Rightarrow> (nat \<Rightarrow> 'v HybridTransactionalMemorySystem \<Rightarrow> 'v HybridTransactionalMemorySystem)
   \<Rightarrow> 'v transactionLogic \<Rightarrow> nat \<Rightarrow> nat \<Rightarrow> 'v HybridTransactionalMemorySystem
   \<Rightarrow> bool \<times> nat \<times> 'v HybridTransactionalMemorySystem" where
  "executeTransactionH_from htm env transactionLogic n calls sys =
     (if n < 10 then
        (let useHTMForThisAttempt = (useHTM sys \<and> n = 0) in
         case runLogic (\<lambda>tx. fetchH tx sys) storeH transactionLogic
                (newHybridTransaction useHTMForThisAttempt) of
           Inl e \<Rightarrow>
             executeTransactionH_from htm env transactionLogic (n + 1) (calls + 1)
               (if useHTMForThisAttempt then (env n sys)\<lparr>useHTM := False\<rparr> else env n sys)
         | Inr transaction \<Rightarrow>
             (let r = finalize htm transaction (env n sys) in
              if fst r then (True, calls + 1, snd r)
              else executeTransactionH_from htm env transactionLogic (n + 1) (calls + 1)
                     (if useHTMForThisAttempt then (snd r)\<lparr>useHTM := False\<rparr> else snd r)))
      else (False, calls, sys))"
  by pat_completeness auto
termination
  by (relation "measure (\<lambda>(htm, env, l, n, calls, sys). 10 - n)") auto

declare executeTransactionH_from.simps [simp del]

definition executeTransactionH ::
  "(nat \<Rightarrow> bool) \<Rightarrow> (nat \<Rightarrow> 'v HybridTransactionalMemorySystem \<Rightarrow> 'v HybridTransactionalMemorySystem)
   \<Rightarrow> 'v transactionLogic \<Rightarrow> 'v HybridTransactionalMemorySystem
   \<Rightarrow> bool \<times> nat \<times> 'v HybridTransactionalMemorySystem" where
  "executeTransactionH htm env transactionLogic sys =
     executeTransactionH_from htm env transactionLogic 0 0 sys"

section \<open>The specification's reading of a historical read\<close>

text \<open>
  \<open>read_at(key, ts)\<close> in the specification's words: among the versions of the cell whose
  timestamp is at most \<open>ts\<close>, the newest, that is the one appended last; nothing when there
  is none.
\<close>

definition read_at :: "(32 word \<times> 'v) list \<Rightarrow> 32 word \<Rightarrow> (32 word \<times> 'v) option" where
  "read_at versions ts =
     (let candidates = filter (\<lambda>a. fst a \<le> ts) versions
      in if candidates = [] then None else Some (last candidates))"


section \<open>Sequences of store operations, and the clock as a bound\<close>

text \<open>
  The two operations that change \<^verbatim>\<open>versionedData\<close> or \<^verbatim>\<open>globalClock\<close>, to speak about
  "any sequence of operations": a call of \<^verbatim>\<open>createAccount\<close>, and a call of \<^verbatim>\<open>commit\<close> on
  some transaction.
\<close>

datatype 'v operation =
    CreateAccount nat 'v
  | is_Commit: Commit "'v Transaction"

fun perform :: "'v FinancialTransactionSystem \<Rightarrow> 'v operation \<Rightarrow> 'v FinancialTransactionSystem" where
  "perform sys (CreateAccount accountId initialBalance) =
     (case createAccount sys accountId initialBalance of Inl e \<Rightarrow> sys | Inr sys' \<Rightarrow> sys')"
| "perform sys (Commit tx) = snd (commit tx sys)"

text \<open>Every timestamp in the store is at most the clock.\<close>

definition timestampsBelowClock :: "'v FinancialTransactionSystem \<Rightarrow> bool" where
  "timestampsBelowClock sys =
     list_all (\<lambda>(k, versions). list_all (\<lambda>a. fst a \<le> globalClock sys) versions)
       (versionedData sys)"

section \<open>The order in which a queue is emptied\<close>


section \<open>The data model's order within a cell\<close>

text \<open>Invariant I1 of the data model: within every cell the timestamps strictly increase.\<close>

definition versionsAscending :: "(nat \<times> (32 word \<times> 'v) list) list \<Rightarrow> bool" where
  "versionsAscending vd = list_all (\<lambda>(k, versions). sorted_wrt (<) (map fst versions)) vd"

section \<open>The shared system from one attempt to the next\<close>

text \<open>
  While the attempts of a submission throw, nothing of the submission reaches the shared
  system: only the other threads act on it. \<open>systemAt env sys k\<close> is the system that
  attempt \<open>k\<close> of such a submission reads, \<open>sys\<close> being the one that attempt 0 reads.
\<close>

fun systemAt :: "(nat \<Rightarrow> 's \<Rightarrow> 's) \<Rightarrow> 's \<Rightarrow> nat \<Rightarrow> 's" where
  "systemAt env sys 0 = sys"
| "systemAt env sys (Suc k) = env k (systemAt env sys k)"

text \<open>In the hybrid system a failed first attempt that ran as HTM also clears \<^verbatim>\<open>useHTM\<close>.\<close>

fun hybridSystemAt ::
  "(nat \<Rightarrow> 'v HybridTransactionalMemorySystem \<Rightarrow> 'v HybridTransactionalMemorySystem)
   \<Rightarrow> 'v HybridTransactionalMemorySystem \<Rightarrow> nat \<Rightarrow> 'v HybridTransactionalMemorySystem" where
  "hybridSystemAt env sys 0 = sys"
| "hybridSystemAt env sys (Suc k) =
     (if useHTM (hybridSystemAt env sys k) \<and> k = 0
      then (env k (hybridSystemAt env sys k))\<lparr>useHTM := False\<rparr>
      else env k (hybridSystemAt env sys k))"

section \<open>Successive passes of the worker\<close>


section \<open>What a read hands back\<close>

text \<open>
  A read returns a value to the closure or throws; the model pairs the value with the
  transaction object as the call has updated it. \<open>returned\<close> keeps the value or the
  exception.
\<close>

definition returned :: "error + ('a \<times> 't) \<Rightarrow> error + 'a" where
  "returned r = map_sum id fst r"

section \<open>Facts about the containers and the binary search\<close>

lemma map_of_map_assign: "map_of (map_assign m k v) = (map_of m)(k \<mapsto> v)"
  by (induction m) (auto simp: fun_eq_iff)

lemma map_of_map_emplace:
  "map_of (map_emplace m k v) = (case map_of m k of None \<Rightarrow> (map_of m)(k \<mapsto> v) | Some _ \<Rightarrow> map_of m)"
  by (simp add: map_emplace_def map_of_map_assign split: option.splits)

lemma lower_bound_from_partition:
  "\<forall>i<n. below (xs ! i) \<Longrightarrow> \<forall>i. n \<le> i \<and> i < length xs \<longrightarrow> \<not> below (xs ! i)
   \<Longrightarrow> first \<le> n \<Longrightarrow> n \<le> first + len \<Longrightarrow> first + len \<le> length xs
   \<Longrightarrow> lower_bound_from xs below first len = n"
proof (induction xs below first len rule: lower_bound_from.induct)
  case (1 xs below first len)
  show ?case
  proof (cases "0 < len")
    case False
    with "1.prems" show ?thesis by (simp add: lower_bound_from.simps)
  next
    case True
    let ?m = "first + len div 2"
    have m: "?m < length xs" using True "1.prems" by linarith
    show ?thesis
    proof (cases "below (xs ! ?m)")
      case b: True
      have "?m < n" using "1.prems"(2) m b by (meson not_le)
      then have "lower_bound_from xs below (?m + 1) (len - len div 2 - 1) = n"
        using "1.IH"(1)[OF True b] "1.prems" True by auto
      then show ?thesis using True b by (subst lower_bound_from.simps) simp
    next
      case nb: False
      have "n \<le> ?m" using "1.prems"(1) nb by (meson not_le)
      then have "lower_bound_from xs below first (len div 2) = n"
        using "1.IH"(2)[OF True nb] "1.prems" True by auto
      then show ?thesis using True nb by (subst lower_bound_from.simps) simp
    qed
  qed
qed

lemma lower_bound_takeWhile:
  assumes "\<forall>x \<in> set (dropWhile below xs). \<not> below x"
  shows "lower_bound xs below = length (takeWhile below xs)"
proof -
  let ?n = "length (takeWhile below xs)"
  have a: "\<forall>i<?n. below (xs ! i)"
    by (metis nth_length_takeWhile takeWhile_nth nth_mem set_takeWhileD)
  have b: "\<forall>i. ?n \<le> i \<and> i < length xs \<longrightarrow> \<not> below (xs ! i)"
  proof (intro allI impI)
    fix i assume i: "?n \<le> i \<and> i < length xs"
    have e: "xs ! i = dropWhile below xs ! (i - ?n)"
      using i nth_append[of "takeWhile below xs" "dropWhile below xs" i] by simp
    have "length xs = ?n + length (dropWhile below xs)"
      by (metis length_append takeWhile_dropWhile_id)
    then have "i - ?n < length (dropWhile below xs)" using i by linarith
    then show "\<not> below (xs ! i)" using assms e by (metis nth_mem)
  qed
  have "?n \<le> length xs" by (simp add: length_takeWhile_le)
  then show ?thesis
    unfolding lower_bound_def using lower_bound_from_partition[OF a b, of 0 "length xs"] by simp
qed


lemma map_assign_idem: "map_assign (map_assign m k v) k v = map_assign m k v"
  by (induction m) auto

lemma sorted_rev_partition:
  fixes vs :: "(32 word \<times> 'v) list"
  shows "sorted (map fst vs) \<Longrightarrow>
     (\<forall>x \<in> set (dropWhile (\<lambda>a. fst a > ts) (rev vs)). \<not> fst x > ts) \<and>
     filter (\<lambda>a. fst a \<le> ts) vs = rev (dropWhile (\<lambda>a. fst a > ts) (rev vs))"
proof (induction vs rule: rev_induct)
  case Nil
  then show ?case by simp
next
  case (snoc y ys)
  from snoc.prems have s: "sorted (map fst ys)" and le: "\<forall>x\<in>set ys. fst x \<le> fst y"
    by (simp_all add: sorted_append)
  show ?case
  proof (cases "fst y > ts")
    case True
    have d: "dropWhile (\<lambda>a. fst a > ts) (rev (ys @ [y])) = dropWhile (\<lambda>a. fst a > ts) (rev ys)"
      using True by simp
    have "\<not> fst y \<le> ts" using True by (simp add: not_le)
    then have f: "filter (\<lambda>a. fst a \<le> ts) (ys @ [y]) = filter (\<lambda>a. fst a \<le> ts) ys"
      by simp
    show ?thesis unfolding d f by (rule snoc.IH[OF s])
  next
    case False
    have d: "dropWhile (\<lambda>a. fst a > ts) (rev (ys @ [y])) = y # rev ys"
      using False by simp
    have y: "fst y \<le> ts" using False by (simp add: not_less)
    then have all: "\<forall>x\<in>set ys. fst x \<le> ts" using le by (meson order_trans)
    then have f: "filter (\<lambda>a. fst a \<le> ts) (ys @ [y]) = ys @ [y]"
      using y by simp
    show ?thesis unfolding d f using all y by (simp add: not_less)
  qed
qed

lemma readBalance_store:
  fixes vs :: "(32 word \<times> 'v) list"
  assumes "map_of (writeSet tx) k = None" and "map_of (versionedData sys) k = Some vs"
    and "\<forall>x \<in> set (dropWhile (\<lambda>a. fst a > startTimestamp tx) (rev vs)). \<not> fst x > startTimestamp tx"
  shows "readBalance tx sys k =
     (case dropWhile (\<lambda>a. fst a > startTimestamp tx) (rev vs) of
        [] \<Rightarrow> Inl (runtime_error (''No valid version found for account '' @ to_string k))
      | a # as \<Rightarrow> Inr (snd a, tx\<lparr>readSet := map_assign (readSet tx) k (snd a, fst a)\<rparr>))"
proof -
  let ?p = "\<lambda>a::32 word \<times> 'v. fst a > startTimestamp tx"
  let ?r = "rev vs"
  have lb: "lower_bound ?r ?p = length (takeWhile ?p ?r)"
    using assms(3) by (rule lower_bound_takeWhile)
  have rb: "readBalance tx sys k =
     (if length (takeWhile ?p ?r) = length ?r
      then Inl (runtime_error (''No valid version found for account '' @ to_string k))
      else Inr (snd (?r ! length (takeWhile ?p ?r)),
                tx\<lparr>readSet := map_assign (readSet tx) k
                   (snd (?r ! length (takeWhile ?p ?r)), fst (?r ! length (takeWhile ?p ?r)))\<rparr>))"
    using assms(1,2) lb by (simp add: readBalance_def Let_def)
  have split: "length ?r = length (takeWhile ?p ?r) + length (dropWhile ?p ?r)"
    by (metis length_append takeWhile_dropWhile_id)
  show ?thesis
  proof (cases "dropWhile ?p ?r")
    case Nil
    have len: "length (takeWhile ?p ?r) = length ?r" using split by (simp only: Nil list.size)
    show ?thesis unfolding rb Nil len by simp
  next
    case (Cons a as)
    have n: "length (takeWhile ?p ?r) \<noteq> length ?r" using split by (simp only: Cons list.size)
    have "?r ! length (takeWhile ?p ?r) = (takeWhile ?p ?r @ dropWhile ?p ?r) ! length (takeWhile ?p ?r)"
      by (simp only: takeWhile_dropWhile_id)
    also have "\<dots> = a" by (simp only: Cons nth_append_length)
    finally have a: "?r ! length (takeWhile ?p ?r) = a" .
    show ?thesis unfolding rb Cons a using n by simp
  qed
qed

section \<open>Historical reads\<close>

lemma read_at_None: "read_at versions ts = None \<Longrightarrow> \<forall>a\<in>set versions. ts < fst a"
  by (auto simp: read_at_def Let_def filter_empty_conv not_le split: if_splits)

lemma sorted_last_greatest:
  fixes ys :: "('k::linorder \<times> 'v) list"
  shows "sorted (map fst ys) \<Longrightarrow> b \<in> set ys \<Longrightarrow> fst b \<le> fst (last ys)"
  by (induction ys rule: rev_induct) (auto simp: sorted_append)

lemma read_at_Some:
  assumes "sorted (map fst versions)" and "read_at versions ts = Some a"
  shows "a \<in> set versions \<and> fst a \<le> ts \<and> (\<forall>b\<in>set versions. fst b \<le> ts \<longrightarrow> fst b \<le> fst a)"
proof -
  let ?ys = "filter (\<lambda>a. fst a \<le> ts) versions"
  from assms(2) have ne: "?ys \<noteq> []" and a: "a = last ?ys"
    by (auto simp: read_at_def Let_def split: if_splits)
  then have mem: "a \<in> set ?ys" using last_in_set by blast
  have "sorted (map fst ?ys)" using assms(1) by (simp add: sorted_filter)
  then have "\<forall>b\<in>set ?ys. fst b \<le> fst (last ?ys)"
    using sorted_last_greatest by blast
  then show ?thesis using mem a by auto
qed

text \<open>
  On a key that the transaction has not written, whose version list is in ascending
  timestamp order (the data model's cell), \<^verbatim>\<open>readBalance\<close> returns the value of the newest
  version whose timestamp is at most the start timestamp and records that value and
  timestamp in the read set; it throws \<^verbatim>\<open>out_of_range\<close> when the key is absent and
  \<^verbatim>\<open>runtime_error\<close> when every version is younger than the start timestamp. The version
  found has the largest timestamp among those at most the start timestamp.
\<close>

lemma readBalance_on_ascending_versions:
  fixes sys :: "'v FinancialTransactionSystem"
  assumes "map_of (writeSet tx) accountId = None"
    and "\<forall>versions. map_of (versionedData sys) accountId = Some versions \<longrightarrow> sorted (map fst versions)"
  shows "readBalance tx sys accountId =
     (case map_of (versionedData sys) accountId of
        None \<Rightarrow> Inl (out_of_range ''Account not found'')
      | Some versions \<Rightarrow>
          (case read_at versions (startTimestamp tx) of
             None \<Rightarrow>
               Inl (runtime_error (''No valid version found for account '' @ to_string accountId))
           | Some (ts, v) \<Rightarrow>
               Inr (v, tx\<lparr>readSet := map_assign (readSet tx) accountId (v, ts)\<rparr>)))
     \<and> (\<forall>versions. map_of (versionedData sys) accountId = Some versions \<longrightarrow>
          (case read_at versions (startTimestamp tx) of
             None \<Rightarrow> \<forall>a\<in>set versions. startTimestamp tx < fst a
           | Some a \<Rightarrow> a \<in> set versions \<and> fst a \<le> startTimestamp tx \<and>
                (\<forall>b\<in>set versions. fst b \<le> startTimestamp tx \<longrightarrow> fst b \<le> fst a)))"
proof (intro conjI allI impI)
  show "readBalance tx sys accountId =
     (case map_of (versionedData sys) accountId of
        None \<Rightarrow> Inl (out_of_range ''Account not found'')
      | Some versions \<Rightarrow>
          (case read_at versions (startTimestamp tx) of
             None \<Rightarrow>
               Inl (runtime_error (''No valid version found for account '' @ to_string accountId))
           | Some (ts, v) \<Rightarrow>
               Inr (v, tx\<lparr>readSet := map_assign (readSet tx) accountId (v, ts)\<rparr>)))"
  proof (cases "map_of (versionedData sys) accountId")
    case None
    then show ?thesis using assms(1) by (simp add: readBalance_def)
  next
    case (Some vs)
    then have srt: "sorted (map fst vs)" using assms(2) by simp
    note part1 = sorted_rev_partition[OF srt, of "startTimestamp tx", THEN conjunct1]
    note part2 = sorted_rev_partition[OF srt, of "startTimestamp tx", THEN conjunct2]
    have rb: "readBalance tx sys accountId =
       (case dropWhile (\<lambda>a. fst a > startTimestamp tx) (rev vs) of
          [] \<Rightarrow> Inl (runtime_error (''No valid version found for account '' @ to_string accountId))
        | a # as \<Rightarrow> Inr (snd a, tx\<lparr>readSet := map_assign (readSet tx) accountId (snd a, fst a)\<rparr>))"
      by (rule readBalance_store[OF assms(1) Some part1])
    show ?thesis
    proof (cases "dropWhile (\<lambda>a. fst a > startTimestamp tx) (rev vs)")
      case Nil
      have "filter (\<lambda>a. fst a \<le> startTimestamp tx) vs = []"
        by (simp only: part2 Nil rev.simps)
      then have "read_at vs (startTimestamp tx) = None" by (simp add: read_at_def)
      then show ?thesis unfolding rb Nil Some by simp
    next
      case (Cons a as)
      have f: "filter (\<lambda>a. fst a \<le> startTimestamp tx) vs = rev as @ [a]"
        by (simp only: part2 Cons rev.simps)
      have "read_at vs (startTimestamp tx) = Some a"
        unfolding read_at_def f by simp
      then show ?thesis unfolding rb Cons Some by (simp add: case_prod_beta)
    qed
  qed
next
  fix versions assume "map_of (versionedData sys) accountId = Some versions"
  then have srt: "sorted (map fst versions)" using assms(2) by simp
  show "case read_at versions (startTimestamp tx) of
          None \<Rightarrow> \<forall>a\<in>set versions. startTimestamp tx < fst a
        | Some a \<Rightarrow> a \<in> set versions \<and> fst a \<le> startTimestamp tx \<and>
             (\<forall>b\<in>set versions. fst b \<le> startTimestamp tx \<longrightarrow> fst b \<le> fst a)"
    using read_at_None[of versions "startTimestamp tx"] read_at_Some[OF srt, of "startTimestamp tx"]
    by (cases "read_at versions (startTimestamp tx)") auto
qed

text \<open>Scenario S6 of the specification: values 0, 1, 2, 3 committed at timestamps 1 to 4,
  read at timestamp 2.\<close>

lemma readBalance_historical_read:
  "map_of (writeSet \<lparr>readSet = [], writeSet = [], startTimestamp = 2\<rparr>) 1 = (None :: int option)
   \<and> sorted (map fst [(1 :: 32 word, 0 :: int), (2, 1), (3, 2), (4, 3)])
   \<and> readBalance \<lparr>readSet = [], writeSet = [], startTimestamp = 2\<rparr>
        \<lparr>versionedData = [(1, [(1, 0 :: int), (2, 1), (3, 2), (4, 3)])], transactionQueue = [],
         globalClock = 4, activeTransactions = 0\<rparr> 1
      = Inr (1, \<lparr>readSet = [(1, (1, 2))], writeSet = [], startTimestamp = 2\<rparr>)"
proof -
  let ?tx = "\<lparr>readSet = [], writeSet = [], startTimestamp = 2\<rparr> :: int Transaction"
  let ?sys = "\<lparr>versionedData = [(1, [(1, 0 :: int), (2, 1), (3, 2), (4, 3)])], transactionQueue = [],
         globalClock = 4, activeTransactions = 0\<rparr>"
  have h1: "map_of (writeSet ?tx) 1 = None" by simp
  have h2: "\<forall>versions. map_of (versionedData ?sys) 1 = Some versions \<longrightarrow> sorted (map fst versions)"
    by simp
  have "readBalance ?tx ?sys 1 = Inr (1, \<lparr>readSet = [(1, (1, 2))], writeSet = [], startTimestamp = 2\<rparr>)"
    using readBalance_on_ascending_versions[OF h1 h2, THEN conjunct1]
    by (simp add: read_at_def)
  then show ?thesis by simp
qed

text \<open>
  Claim C4 does not hold for every key: \<^verbatim>\<open>readBalance\<close> searches the version list with
  \<^verbatim>\<open>std::lower_bound\<close>, which finds the newest version only in a list in ascending
  timestamp order, and \<^verbatim>\<open>createAccount\<close> on an existing key breaks that order. Account 1
  is created with 100, a transaction commits 9 to it at timestamp 1, and the account is
  created again with 50: the cell is \<open>[(0, 100), (1, 9), (0, 50)]\<close>. A transaction with
  start timestamp 1 reads 50 at timestamp 0, although the version \<open>(1, 9)\<close> has a
  timestamp at most 1 and above 0. A transaction with start timestamp 0 reads 100,
  although among the versions at timestamp 0 the one appended last is \<open>(0, 50)\<close>.
\<close>

theorem readBalance_returns_older_version_after_second_createAccount:
  "foldl perform
       \<lparr>versionedData = [], transactionQueue = [], globalClock = 0, activeTransactions = 0\<rparr>
       [CreateAccount 1 (100 :: int),
        Commit \<lparr>readSet = [], writeSet = [(1, 9)], startTimestamp = 0\<rparr>,
        CreateAccount 1 50]
     = \<lparr>versionedData = [(1, [(0, 100), (1, 9), (0, 50)])], transactionQueue = [],
        globalClock = 1, activeTransactions = 0\<rparr>
   \<and> readBalance \<lparr>readSet = [], writeSet = [], startTimestamp = 1\<rparr>
        \<lparr>versionedData = [(1, [(0, 100 :: int), (1, 9), (0, 50)])], transactionQueue = [],
         globalClock = 1, activeTransactions = 0\<rparr> 1
     = Inr (50, \<lparr>readSet = [(1, (50, 0))], writeSet = [], startTimestamp = 1\<rparr>)
   \<and> list_ex (\<lambda>a. fst a \<le> 1 \<and> 0 < fst a) [(0 :: 32 word, 100 :: int), (1, 9), (0, 50)]
   \<and> readBalance \<lparr>readSet = [], writeSet = [], startTimestamp = 0\<rparr>
        \<lparr>versionedData = [(1, [(0, 100 :: int), (1, 9), (0, 50)])], transactionQueue = [],
         globalClock = 1, activeTransactions = 0\<rparr> 1
     = Inr (100, \<lparr>readSet = [(1, (100, 0))], writeSet = [], startTimestamp = 0\<rparr>)
   \<and> read_at [(0, 100 :: int), (1, 9), (0, 50)] 0 = Some (0, 50)"
proof -
  have a: "foldl perform
       \<lparr>versionedData = [], transactionQueue = [], globalClock = 0, activeTransactions = 0\<rparr>
       [CreateAccount 1 (100 :: int),
        Commit \<lparr>readSet = [], writeSet = [(1, 9)], startTimestamp = 0\<rparr>,
        CreateAccount 1 50]
     = \<lparr>versionedData = [(1, [(0, 100), (1, 9), (0, 50)])], transactionQueue = [],
        globalClock = 1, activeTransactions = 0\<rparr>"
    by (simp add: createAccount_def commit_def subscript_def Let_def)
  have b: "readBalance \<lparr>readSet = [], writeSet = [], startTimestamp = 1\<rparr>
        \<lparr>versionedData = [(1, [(0, 100 :: int), (1, 9), (0, 50)])], transactionQueue = [],
         globalClock = 1, activeTransactions = 0\<rparr> 1
     = Inr (50, \<lparr>readSet = [(1, (50, 0))], writeSet = [], startTimestamp = 1\<rparr>)"
    by code_simp
  have c: "list_ex (\<lambda>a. fst a \<le> 1 \<and> 0 < fst a) [(0 :: 32 word, 100 :: int), (1, 9), (0, 50)]"
    by simp
  have e: "readBalance \<lparr>readSet = [], writeSet = [], startTimestamp = 0\<rparr>
        \<lparr>versionedData = [(1, [(0, 100 :: int), (1, 9), (0, 50)])], transactionQueue = [],
         globalClock = 1, activeTransactions = 0\<rparr> 1
     = Inr (100, \<lparr>readSet = [(1, (100, 0))], writeSet = [], startTimestamp = 0\<rparr>)"
    by code_simp
  have f: "read_at [(0, 100 :: int), (1, 9), (0, 50)] 0 = Some (0, 50)"
    by (simp add: read_at_def)
  show ?thesis by (intro conjI) (rule a b c e f)+
qed

section \<open>The global clock\<close>

lemma set_map_assign: "set (map_assign m k v) \<subseteq> insert (k, v) (set m)"
  by (induction m) (auto split: if_splits)

lemma subscript_in_set: "a \<in> set (subscript m k) \<Longrightarrow> \<exists>vs. (k, vs) \<in> set m \<and> a \<in> set vs"
  by (cases "map_of m k") (auto simp: subscript_def dest: map_of_SomeD)

lemma set_map_emplace: "set (map_emplace m k v) \<subseteq> insert (k, v) (set m)"
  using set_map_assign[of m k v] by (auto simp: map_emplace_def split: option.splits)

lemma validateReadSet_entries:
  "(k, vs) \<in> set (snd (validateReadSet entries endTimestamp vd)) \<Longrightarrow> (k, vs) \<in> set vd \<or> vs = []"
proof (induction entries endTimestamp vd rule: validateReadSet.induct)
  case (1 endTimestamp vd)
  then show ?case by simp
next
  case (2 accountId readValue readVersion entries endTimestamp vd)
  then show ?case
    using set_map_emplace[of vd accountId "[]"]
    by (auto simp: Let_def split: if_splits)
qed

lemma applyWriteSet_entries:
  "(k, vs) \<in> set (applyWriteSet entries endTimestamp vd) \<Longrightarrow> a \<in> set vs
   \<Longrightarrow> fst a = endTimestamp \<or> (\<exists>vs'. (k, vs') \<in> set vd \<and> a \<in> set vs')"
proof (induction entries endTimestamp vd arbitrary: k vs rule: applyWriteSet.induct)
  case (1 endTimestamp vd)
  then show ?case by auto
next
  case (2 accountId newBalance entries endTimestamp vd)
  let ?vd = "map_assign vd accountId (subscript vd accountId @ [(endTimestamp, newBalance)])"
  from 2 have "fst a = endTimestamp \<or> (\<exists>vs'. (k, vs') \<in> set ?vd \<and> a \<in> set vs')" by simp
  then show ?case
  proof
    assume "fst a = endTimestamp" then show ?thesis ..
  next
    assume "\<exists>vs'. (k, vs') \<in> set ?vd \<and> a \<in> set vs'"
    then obtain vs' where m: "(k, vs') \<in> set ?vd" and a: "a \<in> set vs'" by blast
    from m set_map_assign[of vd accountId "subscript vd accountId @ [(endTimestamp, newBalance)]"]
    have "(k, vs') \<in> set vd \<or>
          (k = accountId \<and> vs' = subscript vd accountId @ [(endTimestamp, newBalance)])"
      by auto
    then show ?thesis using a subscript_in_set[of a vd accountId] by auto
  qed
qed

lemma word_le_succ: "(c :: 32 word) \<noteq> - 1 \<Longrightarrow> x \<le> c \<Longrightarrow> x \<le> c + 1"
  using inc_less_eq_self_iff_eq[of c] by (meson linear order_trans)

lemma commit_clock: "globalClock (snd (commit tx sys)) = globalClock sys + 1"
  by (simp add: commit_def Let_def)

lemma createAccount_clock: "createAccount sys k v = Inr sys' \<Longrightarrow> globalClock sys' = globalClock sys"
  by (auto simp: createAccount_def)

lemma perform_clock:
  "globalClock (perform sys operation) = globalClock sys + (if is_Commit operation then 1 else 0)"
  by (cases operation) (auto simp: commit_clock createAccount_def)

lemma foldl_perform_clock:
  "globalClock (foldl perform sys ops) = globalClock sys + of_nat (length (filter is_Commit ops))"
  by (induction ops arbitrary: sys) (auto simp: perform_clock)

lemma commit_timestampsBelowClock:
  assumes "globalClock sys \<noteq> - 1" and "timestampsBelowClock sys"
  shows "timestampsBelowClock (snd (commit tx sys))"
proof -
  let ?e = "globalClock sys + 1"
  let ?r = "validateReadSet (readSet tx) ?e (versionedData sys)"
  have old: "\<And>k vs a. (k, vs) \<in> set (versionedData sys) \<Longrightarrow> a \<in> set vs \<Longrightarrow> fst a \<le> ?e"
    using assms word_le_succ by (fastforce simp: timestampsBelowClock_def list_all_iff)
  have mid: "\<And>k vs a. (k, vs) \<in> set (snd ?r) \<Longrightarrow> a \<in> set vs \<Longrightarrow> fst a \<le> ?e"
    using validateReadSet_entries old by fastforce
  have new: "\<And>k vs a. (k, vs) \<in> set (applyWriteSet (writeSet tx) ?e (snd ?r)) \<Longrightarrow> a \<in> set vs
              \<Longrightarrow> fst a \<le> ?e"
    using applyWriteSet_entries mid by fastforce
  show ?thesis
    using mid new by (auto simp: commit_def Let_def timestampsBelowClock_def list_all_iff)
qed

text \<open>
  Claim C2 fails as stated: \<^verbatim>\<open>commit\<close> increments the clock before it validates, so a
  commit that returns a conflict has advanced the clock too. Here the store holds
  timestamps 0 and 1, the clock is 1, the transaction read version 0; the commit
  conflicts, writes nothing, and leaves the clock at 2.
\<close>

theorem conflicting_commit_advances_clock_counterexample:
  "globalClock \<lparr>versionedData = [(1, [(0, 5 :: int), (1, 9)])], transactionQueue = [],
                 globalClock = 1, activeTransactions = 0\<rparr> = 1
   \<and> fst (commit \<lparr>readSet = [(1, (5, 0))], writeSet = [(1, 6)], startTimestamp = 0\<rparr>
             \<lparr>versionedData = [(1, [(0, 5 :: int), (1, 9)])], transactionQueue = [],
              globalClock = 1, activeTransactions = 0\<rparr>) = False
   \<and> globalClock
        (snd (commit \<lparr>readSet = [(1, (5, 0))], writeSet = [(1, 6)], startTimestamp = 0\<rparr>
                \<lparr>versionedData = [(1, [(0, 5 :: int), (1, 9)])], transactionQueue = [],
                 globalClock = 1, activeTransactions = 0\<rparr>)) = 2
   \<and> versionedData
        (snd (commit \<lparr>readSet = [(1, (5, 0))], writeSet = [(1, 6)], startTimestamp = 0\<rparr>
                \<lparr>versionedData = [(1, [(0, 5 :: int), (1, 9)])], transactionQueue = [],
                 globalClock = 1, activeTransactions = 0\<rparr>)) = [(1, [(0, 5), (1, 9)])]"
  by code_simp

text \<open>
  Claim C2, amended. Every call of \<^verbatim>\<open>commit\<close>, successful or conflicting, increments the
  clock by exactly one (modulo \<open>2^32\<close>), and \<^verbatim>\<open>createAccount\<close> and \<^verbatim>\<open>scheduleTransaction\<close>
  leave it alone: after any sequence of operations the clock has advanced by the
  number of commits attempted. While the clock has not reached its last value, it
  stays an upper bound of every timestamp in the store.
\<close>

theorem clock_advances_on_every_commit:
  "globalClock (snd (commit tx sys)) = globalClock sys + 1
   \<and> (\<exists>sys'. createAccount sys accountId initialBalance = Inr sys'
              \<and> globalClock sys' = globalClock sys)
   \<and> globalClock (scheduleTransaction sys now l p desc) = globalClock sys
   \<and> globalClock (foldl perform sys ops)
       = globalClock sys + of_nat (length (filter is_Commit ops))
   \<and> (globalClock sys \<noteq> - 1 \<and> timestampsBelowClock sys
        \<longrightarrow> timestampsBelowClock (snd (commit tx sys)))"
  using commit_clock[of tx sys] foldl_perform_clock[of sys ops] commit_timestampsBelowClock[of sys tx]
  by (simp add: createAccount_def scheduleTransaction_def)

theorem clock_advances_on_every_commit_witness:
  "globalClock \<lparr>versionedData = [(1, [(0, 5 :: int), (1, 9)])], transactionQueue = [],
                 globalClock = 1, activeTransactions = 0\<rparr> \<noteq> - 1
   \<and> timestampsBelowClock \<lparr>versionedData = [(1, [(0, 5 :: int), (1, 9)])], transactionQueue = [],
                 globalClock = 1, activeTransactions = 0\<rparr>
   \<and> timestampsBelowClock
        (snd (commit \<lparr>readSet = [(1, (9, 1))], writeSet = [(1, 6)], startTimestamp = 1\<rparr>
                \<lparr>versionedData = [(1, [(0, 5 :: int), (1, 9)])], transactionQueue = [],
                 globalClock = 1, activeTransactions = 0\<rparr>))
   \<and> globalClock
        (snd (commit \<lparr>readSet = [(1, (9, 1))], writeSet = [(1, 6)], startTimestamp = 1\<rparr>
                \<lparr>versionedData = [(1, [(0, 5 :: int), (1, 9)])], transactionQueue = [],
                 globalClock = 1, activeTransactions = 0\<rparr>)) = 2"
proof -
  have h: "timestampsBelowClock \<lparr>versionedData = [(1, [(0, 5 :: int), (1, 9)])],
             transactionQueue = [], globalClock = 1, activeTransactions = 0\<rparr>"
    by (simp add: timestampsBelowClock_def)
  from h clock_advances_on_every_commit
          [of "\<lparr>readSet = [(1, (9, 1))], writeSet = [(1, 6)], startTimestamp = 1\<rparr>"
              "\<lparr>versionedData = [(1, [(0, 5 :: int), (1, 9)])], transactionQueue = [],
                 globalClock = 1, activeTransactions = 0\<rparr>" 1 0 0 Return 0 "[]" "[]"]
  show ?thesis by simp
qed

section \<open>Initialisation\<close>

text \<open>
  Claim C5 fails as stated: no variant has a failure path for an existing key.
  \<^verbatim>\<open>initializeMemory\<close> on an existing key returns normally with the store as it was;
  \<^verbatim>\<open>createAccount\<close> on an existing key returns normally too, having appended a version.
\<close>

theorem initialize_existing_key_counterexample:
  "initializeMemory [(100, \<lparr>content = 5 :: int, modificationCount = 0\<rparr>)] 100 7
     = Inr [(100, \<lparr>content = 5, modificationCount = 0\<rparr>)]
   \<and> createAccount \<lparr>versionedData = [(1, [(0, 100 :: int)])], transactionQueue = [],
                     globalClock = 0, activeTransactions = 0\<rparr> 1 50
     = Inr \<lparr>versionedData = [(1, [(0, 100), (0, 50)])], transactionQueue = [],
            globalClock = 0, activeTransactions = 0\<rparr>"
  by (simp add: initializeMemory_def map_emplace_def createAccount_def subscript_def)

text \<open>
  Claim C5, amended. Initialisation never fails. On an absent key it creates the cell:
  \<^verbatim>\<open>initializeMemory\<close> (in \<^verbatim>\<open>STM.cpp\<close> and \<^verbatim>\<open>advanced.cpp\<close>) a cell with the value and
  count 0, \<^verbatim>\<open>createAccount\<close> the one-version list \<open>[(0, value)]\<close>, other keys as they were.
  On an existing key \<^verbatim>\<open>initializeMemory\<close> leaves the store unchanged.
\<close>

theorem initialize_never_fails:
  "(\<exists>ds'. initializeMemory ds location v = Inr ds'
      \<and> (map_of ds location = None
           \<longrightarrow> map_of ds' = (map_of ds)(location \<mapsto> \<lparr>content = v, modificationCount = 0\<rparr>))
      \<and> (map_of ds location \<noteq> None \<longrightarrow> ds' = ds))
   \<and> (\<exists>dsA'. initializeMemoryA dsA location v = Inr dsA'
      \<and> (map_of dsA location = None
           \<longrightarrow> map_of dsA' = (map_of dsA)(location \<mapsto> \<lparr>cellContent = v, version = 0\<rparr>))
      \<and> (map_of dsA location \<noteq> None \<longrightarrow> dsA' = dsA))
   \<and> (\<exists>sys'. createAccount sys accountId initialBalance = Inr sys'
      \<and> (map_of (versionedData sys) accountId = None
           \<longrightarrow> map_of (versionedData sys')
               = (map_of (versionedData sys))(accountId \<mapsto> [(0, initialBalance)])))"
  by (auto simp: initializeMemory_def initializeMemoryA_def createAccount_def map_emplace_def
        map_of_map_assign subscript_def)

theorem initialize_never_fails_witness:
  "map_of ([] :: (nat \<times> int DataCell) list) 100 = None
   \<and> (\<exists>ds'. initializeMemory [] 100 (5 :: int) = Inr ds'
        \<and> map_of ds' = [100 \<mapsto> \<lparr>content = 5, modificationCount = 0\<rparr>])
   \<and> map_of [(100, \<lparr>cellContent = 5 :: int, version = 3\<rparr>)] 100 \<noteq> None
   \<and> initializeMemoryA [(100, \<lparr>cellContent = 5 :: int, version = 3\<rparr>)] 100 5
       = Inr [(100, \<lparr>cellContent = 5 :: int, version = 3\<rparr>)]
   \<and> (\<exists>sys'. createAccount \<lparr>versionedData = [], transactionQueue = [], globalClock = 0,
                               activeTransactions = 0\<rparr> 1 (5 :: int) = Inr sys'
        \<and> map_of (versionedData sys') = [1 \<mapsto> [(0, 5)]])"
  using initialize_never_fails
          [of "[]" 100 5 "[(100, \<lparr>cellContent = 5 :: int, version = 3\<rparr>)]"
              "\<lparr>versionedData = [], transactionQueue = [], globalClock = 0,
                 activeTransactions = 0\<rparr>" 1 5]
  by auto

section \<open>Attempts that fail\<close>

lemma runLogic_invariant:
  assumes rd: "\<And>tx k v tx'. P tx \<Longrightarrow> rd tx k = Inr (v, tx') \<Longrightarrow> P tx'"
      and wr: "\<And>tx k v. P tx \<Longrightarrow> P (wr tx k v)"
  shows "P tx \<Longrightarrow> runLogic rd wr l tx = Inr tx' \<Longrightarrow> P tx'"
proof (induction l arbitrary: tx)
  case Return
  then show ?case by simp
next
  case (Throw e)
  then show ?case by simp
next
  case (Read k f)
  from Read.prems(2) obtain v tx1 where r: "rd tx k = Inr (v, tx1)"
    and run: "runLogic rd wr (f v) tx1 = Inr tx'"
    by (auto split: sum.splits)
  have "P tx1" using rd[OF Read.prems(1) r] .
  then show ?case using Read.IH[of "f v" tx1] run by blast
next
  case (Write k v p)
  have "P (wr tx k v)" using wr[OF Write.prems(1)] .
  then show ?case using Write.IH[of "wr tx k v"] Write.prems(2) by simp
qed

lemma map_emplace_present: "map_of m k \<noteq> None \<Longrightarrow> map_emplace m k v = m"
  by (auto simp: map_emplace_def)

lemma validateReadSet_present:
  "\<forall>k \<in> fst ` set entries. map_of vd k \<noteq> None
   \<Longrightarrow> snd (validateReadSet entries endTimestamp vd) = vd"
  by (induction entries endTimestamp vd rule: validateReadSet.induct)
     (auto simp: Let_def map_emplace_present)

lemma readBalance_readSet_keys:
  assumes "\<forall>k \<in> fst ` set (readSet tx). map_of (versionedData sys) k \<noteq> None"
      and "readBalance tx sys k = Inr (v, tx')"
  shows "\<forall>k \<in> fst ` set (readSet tx'). map_of (versionedData sys) k \<noteq> None"
proof (cases "map_of (writeSet tx) k")
  case (Some w)
  then show ?thesis using assms by (simp add: readBalance_def)
next
  case None
  then obtain vs a where vs: "map_of (versionedData sys) k = Some vs"
    and tx': "tx' = tx\<lparr>readSet := map_assign (readSet tx) k a\<rparr>"
    using assms(2) by (auto simp: readBalance_def Let_def split: option.splits if_splits)
  show ?thesis
    using assms(1) vs set_map_assign[of "readSet tx" k a] unfolding tx' by fastforce
qed

lemma runLogic_readSet_keys:
  assumes "runLogic (\<lambda>tx. readBalance tx sys) updateBalance l (newTransaction sys) = Inr tx"
  shows "\<forall>k \<in> fst ` set (readSet tx). map_of (versionedData sys) k \<noteq> None"
proof -
  let ?P = "\<lambda>tx. \<forall>k \<in> fst ` set (readSet tx). map_of (versionedData sys) k \<noteq> None"
  have init: "?P (newTransaction sys)" by (simp add: newTransaction_def)
  have rd: "\<And>tx k v tx'. ?P tx \<Longrightarrow> readBalance tx sys k = Inr (v, tx') \<Longrightarrow> ?P tx'"
    by (rule readBalance_readSet_keys)
  have wr: "\<And>tx k v. ?P tx \<Longrightarrow> ?P (updateBalance tx k v)"
    by (simp add: updateBalance_def)
  show ?thesis
    by (rule runLogic_invariant[where P = ?P and rd = "\<lambda>tx. readBalance tx sys"
                                 and wr = updateBalance, OF rd wr init assms])
qed

lemma commit_conflict_store:
  assumes "\<forall>k \<in> fst ` set (readSet tx). map_of (versionedData sys) k \<noteq> None"
      and "commit tx sys = (False, sys')"
  shows "versionedData sys' = versionedData sys"
  using assms validateReadSet_present[of "readSet tx" "versionedData sys" "globalClock sys + 1"]
  by (auto simp: commit_def Let_def split: if_splits)

lemma systemAt_same: "systemAt (\<lambda>n s. s) sys k = sys"
  by (induction k) simp_all

lemma retryLoop_throwing_attempt:
  assumes "n < 10"
    and "runLogic (\<lambda>tx. readBalance tx sys) updateBalance l (newTransaction sys) = Inl e"
  shows "retryLoop env l n calls out sys =
           retryLoop env l (n + 1) (calls + 1) (out @ [''Transaction error: '' @ what e])
             (env n sys)"
  using assms by (subst retryLoop.simps) simp

lemma retryLoop_throws:
  assumes H: "\<forall>k<10. isl (runLogic (\<lambda>tx. readBalance tx (systemAt env sys k)) updateBalance l
                            (newTransaction (systemAt env sys k)))"
  shows "j = 10 - n \<Longrightarrow> n \<le> 10 \<Longrightarrow> retryLoop env l n calls out (systemAt env sys n) =
     \<lparr>success = False, attempts = 10, closureCalls = calls + (10 - n),
      cout = out @ map (\<lambda>k. ''Transaction error: '' @
                              what (projl (runLogic (\<lambda>tx. readBalance tx (systemAt env sys k))
                                             updateBalance l (newTransaction (systemAt env sys k)))))
                     [n..<10],
      after = systemAt env sys 10\<rparr>"
proof (induction j arbitrary: n calls out)
  case 0
  then have "n = 10" by simp
  then show ?case by (subst retryLoop.simps) simp
next
  case (Suc j)
  let ?run = "\<lambda>k. runLogic (\<lambda>tx. readBalance tx (systemAt env sys k)) updateBalance l
                     (newTransaction (systemAt env sys k))"
  let ?m = "\<lambda>k. ''Transaction error: '' @ what (projl (?run k))"
  from Suc have n: "n < 10" and j: "j = 10 - (n + 1)" and e: "10 - n = Suc (9 - n)" by simp_all
  from H n have "isl (?run n)" by blast
  then have r: "?run n = Inl (projl (?run n))" by simp
  have u: "[n..<10] = n # [n + 1..<10]" using n by (simp add: upt_conv_Cons)
  have "retryLoop env l n calls out (systemAt env sys n)
        = retryLoop env l (n + 1) (calls + 1) (out @ [?m n]) (systemAt env sys (n + 1))"
    using retryLoop_throwing_attempt[OF n r, of env calls out] by simp
  also have "\<dots> = \<lparr>success = False, attempts = 10, closureCalls = calls + 1 + (10 - (n + 1)),
      cout = (out @ [?m n]) @ map ?m [n + 1..<10], after = systemAt env sys 10\<rparr>"
    using Suc.IH[OF j, of "calls + 1" "out @ [?m n]"] n by simp
  also have "\<dots> = \<lparr>success = False, attempts = 10, closureCalls = calls + (10 - n),
      cout = out @ map ?m [n..<10], after = systemAt env sys 10\<rparr>"
    unfolding e u by simp
  finally show ?case .
qed

lemma executeTransaction_throws:
  assumes "runLogic (\<lambda>tx. fetch tx ds) store l newMemoryTransaction = Inl e"
  shows "executeTransaction env l ds = (Inl e, 1, ds)"
  unfolding executeTransaction_def using assms by (subst executeTransaction_from.simps) simp

text \<open>
  Claim C3. A failed attempt applies none of its writes. When \<^verbatim>\<open>finalizeTransaction\<close>
  returns \<open>False\<close> the store is the one it was given. When \<^verbatim>\<open>commit\<close> of the financial
  system returns \<open>False\<close> for a transaction built by a closure, on a system \<open>sysC\<close> that
  still has every key the closure saw, \<^verbatim>\<open>versionedData\<close> is that of \<open>sysC\<close>. When the
  closure throws, \<^verbatim>\<open>executeTransaction\<close> ends at once with the store untouched. In the
  worker's retry loop an attempt whose closure throws hands on to the next attempt the
  system as the other threads have left it, with nothing of its own; and when the closure
  throws at every attempt the loop ends unsuccessful on the system that the other threads
  have made, which is the system it started from when no other thread has acted.
\<close>

theorem failed_attempt_applies_no_write:
  "(finalizeTransaction mtx ds = (False, ds') \<longrightarrow> ds' = ds)
   \<and> (runLogic (\<lambda>tx. readBalance tx sys) updateBalance l (newTransaction sys) = Inr tx
        \<and> (\<forall>k. map_of (versionedData sys) k \<noteq> None \<longrightarrow> map_of (versionedData sysC) k \<noteq> None)
        \<and> commit tx sysC = (False, sys')
       \<longrightarrow> versionedData sys' = versionedData sysC)
   \<and> (runLogic (\<lambda>tx. fetch tx ds) store l newMemoryTransaction = Inl e
       \<longrightarrow> executeTransaction env l ds = (Inl e, 1, ds))
   \<and> (runLogic (\<lambda>tx. readBalance tx sys) updateBalance l (newTransaction sys) = Inl e \<and> n < 10
       \<longrightarrow> retryLoop envF l n calls out sys
           = retryLoop envF l (n + 1) (calls + 1) (out @ [''Transaction error: '' @ what e])
               (envF n sys))
   \<and> ((\<forall>k<10. isl (runLogic (\<lambda>tx. readBalance tx (systemAt envF sys k)) updateBalance l
                      (newTransaction (systemAt envF sys k))))
       \<longrightarrow> \<not> success (retryLoop envF l 0 0 [] sys)
           \<and> after (retryLoop envF l 0 0 [] sys) = systemAt envF sys 10)
   \<and> (runLogic (\<lambda>tx. readBalance tx sys) updateBalance l (newTransaction sys) = Inl e
       \<longrightarrow> \<not> success (retryLoop (\<lambda>n s. s) l 0 0 [] sys)
           \<and> after (retryLoop (\<lambda>n s. s) l 0 0 [] sys) = sys)"
proof (intro conjI impI)
  assume "finalizeTransaction mtx ds = (False, ds')"
  then show "ds' = ds" by (auto simp: finalizeTransaction_def split: if_splits)
next
  assume a: "runLogic (\<lambda>tx. readBalance tx sys) updateBalance l (newTransaction sys) = Inr tx
        \<and> (\<forall>k. map_of (versionedData sys) k \<noteq> None \<longrightarrow> map_of (versionedData sysC) k \<noteq> None)
        \<and> commit tx sysC = (False, sys')"
  then have "\<forall>k \<in> fst ` set (readSet tx). map_of (versionedData sysC) k \<noteq> None"
    using runLogic_readSet_keys[of sys l tx] by blast
  then show "versionedData sys' = versionedData sysC"
    using a commit_conflict_store by blast
next
  assume "runLogic (\<lambda>tx. fetch tx ds) store l newMemoryTransaction = Inl e"
  then show "executeTransaction env l ds = (Inl e, 1, ds)" by (rule executeTransaction_throws)
next
  assume a: "runLogic (\<lambda>tx. readBalance tx sys) updateBalance l (newTransaction sys) = Inl e
             \<and> n < 10"
  then show "retryLoop envF l n calls out sys
           = retryLoop envF l (n + 1) (calls + 1) (out @ [''Transaction error: '' @ what e])
               (envF n sys)"
    using retryLoop_throwing_attempt[of n sys l e envF calls out] by blast
next
  assume a: "\<forall>k<10. isl (runLogic (\<lambda>tx. readBalance tx (systemAt envF sys k)) updateBalance l
                      (newTransaction (systemAt envF sys k)))"
  show "\<not> success (retryLoop envF l 0 0 [] sys)"
    using retryLoop_throws[OF a refl, of 0 0 "[]"] by simp
  show "after (retryLoop envF l 0 0 [] sys) = systemAt envF sys 10"
    using retryLoop_throws[OF a refl, of 0 0 "[]"] by simp
next
  assume a: "runLogic (\<lambda>tx. readBalance tx sys) updateBalance l (newTransaction sys) = Inl e"
  then have b: "\<forall>k<10. isl (runLogic (\<lambda>tx. readBalance tx (systemAt (\<lambda>n s. s) sys k))
                   updateBalance l (newTransaction (systemAt (\<lambda>n s. s) sys k)))"
    by (simp add: systemAt_same)
  show "\<not> success (retryLoop (\<lambda>n s. s) l 0 0 [] sys)"
    using retryLoop_throws[OF b refl, of 0 0 "[]"] by simp
  show "after (retryLoop (\<lambda>n s. s) l 0 0 [] sys) = sys"
    using retryLoop_throws[OF b refl, of 0 0 "[]"] by (simp add: systemAt_same)
qed

theorem failed_attempt_applies_no_write_witness:
  "finalizeTransaction \<lparr>readLog = [(100, 0)], writeBuffer = [(100, 6 :: int)]\<rparr>
       [(100, \<lparr>content = 9, modificationCount = 1\<rparr>)]
     = (False, [(100, \<lparr>content = 9, modificationCount = 1\<rparr>)])
   \<and> runLogic (\<lambda>tx. readBalance tx \<lparr>versionedData = [(1, [(0, 5 :: int)])], transactionQueue = [],
                                       globalClock = 0, activeTransactions = 0\<rparr>)
        updateBalance (Read 1 (\<lambda>v. Write 1 (v + 1) Return))
        (newTransaction \<lparr>versionedData = [(1, [(0, 5 :: int)])], transactionQueue = [],
                         globalClock = 0, activeTransactions = 0\<rparr>)
     = Inr \<lparr>readSet = [(1, (5, 0))], writeSet = [(1, 6)], startTimestamp = 0\<rparr>
   \<and> fst (commit \<lparr>readSet = [(1, (5, 0))], writeSet = [(1, 6 :: int)], startTimestamp = 0\<rparr>
             \<lparr>versionedData = [(1, [(0, 5), (1, 9)])], transactionQueue = [],
              globalClock = 1, activeTransactions = 0\<rparr>) = False
   \<and> versionedData
        (snd (commit \<lparr>readSet = [(1, (5, 0))], writeSet = [(1, 6 :: int)], startTimestamp = 0\<rparr>
                \<lparr>versionedData = [(1, [(0, 5), (1, 9)])], transactionQueue = [],
                 globalClock = 1, activeTransactions = 0\<rparr>))
     = [(1, [(0, 5), (1, 9)])]
   \<and> executeTransaction (\<lambda>n s. s) (Read 7 (\<lambda>v :: int. Return))
        [(100, \<lparr>content = 9, modificationCount = 1\<rparr>)]
     = (Inl (out_of_range ''Memory location not initialized''), 1,
        [(100, \<lparr>content = 9, modificationCount = 1\<rparr>)])
   \<and> \<not> success (retryLoop (\<lambda>n s. s) (Read 7 (\<lambda>v :: int. Return)) 0 0 []
                   \<lparr>versionedData = [(1, [(0, 5)])], transactionQueue = [],
                    globalClock = 0, activeTransactions = 0\<rparr>)
   \<and> after (retryLoop (\<lambda>n s. s) (Read 7 (\<lambda>v :: int. Return)) 0 0 []
               \<lparr>versionedData = [(1, [(0, 5)])], transactionQueue = [],
                globalClock = 0, activeTransactions = 0\<rparr>)
     = \<lparr>versionedData = [(1, [(0, 5)])], transactionQueue = [],
        globalClock = 0, activeTransactions = 0\<rparr>"
proof -
  let ?mtx = "\<lparr>readLog = [(100, 0)], writeBuffer = [(100, 6 :: int)]\<rparr>"
  let ?ds = "[(100 :: nat, \<lparr>content = 9 :: int, modificationCount = 1\<rparr>)]"
  let ?sys = "\<lparr>versionedData = [(1, [(0, 5 :: int)])], transactionQueue = [],
               globalClock = 0, activeTransactions = 0\<rparr>"
  let ?sysC = "\<lparr>versionedData = [(1, [(0, 5 :: int), (1, 9)])], transactionQueue = [],
                globalClock = 1, activeTransactions = 0\<rparr>"
  let ?l = "Read 1 (\<lambda>v :: int. Write 1 (v + 1) Return)"
  let ?t = "Read 7 (\<lambda>v :: int. Return)"
  let ?tx = "\<lparr>readSet = [(1, (5 :: int, 0))], writeSet = [(1, 6)], startTimestamp = 0\<rparr>"
  have h1: "finalizeTransaction ?mtx ?ds = (False, ?ds)" by code_simp
  have h2: "runLogic (\<lambda>tx. readBalance tx ?sys) updateBalance ?l (newTransaction ?sys) = Inr ?tx"
    by code_simp
  have h3: "\<forall>k. map_of (versionedData ?sys) k \<noteq> None \<longrightarrow> map_of (versionedData ?sysC) k \<noteq> None"
    by simp
  have h4: "fst (commit ?tx ?sysC) = False" by code_simp
  then have h4': "commit ?tx ?sysC = (False, snd (commit ?tx ?sysC))"
    by (metis prod.collapse)
  have h5: "runLogic (\<lambda>tx. fetch tx ?ds) store ?t newMemoryTransaction
            = Inl (out_of_range ''Memory location not initialized'')" by code_simp
  have h6: "runLogic (\<lambda>tx. readBalance tx ?sys) updateBalance ?t (newTransaction ?sys)
            = Inl (out_of_range ''Account not found'')" by code_simp
  note a = failed_attempt_applies_no_write
             [where mtx = ?mtx and ds = ?ds and ds' = ?ds and sys = ?sys and l = ?l and tx = ?tx
                and sysC = ?sysC and sys' = "snd (commit ?tx ?sysC)"]
  note b = failed_attempt_applies_no_write
             [where ds = ?ds and sys = ?sys and l = ?t and env = "\<lambda>n s. s" and envF = "\<lambda>n s. s"]
  have c3: "versionedData (snd (commit ?tx ?sysC)) = versionedData ?sysC"
    using a h2 h3 h4' by blast
  have c4: "executeTransaction (\<lambda>n s. s) ?t ?ds
            = (Inl (out_of_range ''Memory location not initialized''), 1, ?ds)"
    using b[where e = "out_of_range ''Memory location not initialized''"] h5 by blast
  have c5: "\<not> success (retryLoop (\<lambda>n s. s) ?t 0 0 [] ?sys)
            \<and> after (retryLoop (\<lambda>n s. s) ?t 0 0 [] ?sys) = ?sys"
    using b[where e = "out_of_range ''Account not found''"] h6 by blast
  show ?thesis using h1 h2 h4 c3 c4 c5 by simp
qed

section \<open>Attempts that read nothing from the store\<close>

lemma commit_empty_readSet:
  "readSet tx = [] \<Longrightarrow>
   commit tx sys = (True, sys\<lparr>versionedData :=
                            applyWriteSet (writeSet tx) (globalClock sys + 1) (versionedData sys),
                          globalClock := globalClock sys + 1\<rparr>)"
  by (simp add: commit_def Let_def)

text \<open>
  Claim C10. A transaction whose read set is empty never gets a conflict: \<^verbatim>\<open>commit\<close>
  (financial and advanced variants) returns \<open>True\<close> and applies the write set. So a
  closure that leaves the read set empty commits on its first attempt, whatever other
  threads have done in between: the worker's loop succeeds with one call of the
  closure, and the advanced task returns after one call.
\<close>

theorem empty_read_set_never_conflicts:
  "(readSet tx = [] \<longrightarrow>
      fst (commit tx sys) \<and>
      versionedData (snd (commit tx sys))
        = applyWriteSet (writeSet tx) (globalClock sys + 1) (versionedData sys))
   \<and> (readSetA atx = [] \<longrightarrow> commitA atx dsA = (True, applyWriteSetA (writeSetA atx) dsA))
   \<and> (runLogic (\<lambda>tx. readBalance tx sys) updateBalance l (newTransaction sys) = Inr tx
        \<and> readSet tx = []
       \<longrightarrow> retryLoop env l 0 0 [] sys
           = \<lparr>success = True, attempts = 0, closureCalls = 1, cout = [],
              after = snd (commit tx (env 0 sys))\<rparr>)
   \<and> (runLogic (\<lambda>tx. readA tx dsA) writeA l (newSpecTransaction False) = Inr atx
        \<and> readSetA atx = []
       \<longrightarrow> executeTransactionA envA l 0 dsA
           = Some (Inr (), 1, applyWriteSetA (writeSetA atx) (envA 0 dsA)))"
proof (intro conjI impI)
  assume "readSet tx = []"
  then show "fst (commit tx sys)"
    and "versionedData (snd (commit tx sys))
        = applyWriteSet (writeSet tx) (globalClock sys + 1) (versionedData sys)"
    by (simp_all add: commit_empty_readSet)
next
  assume "readSetA atx = []"
  then show "commitA atx dsA = (True, applyWriteSetA (writeSetA atx) dsA)"
    by (simp add: commitA_def)
next
  assume a: "runLogic (\<lambda>tx. readBalance tx sys) updateBalance l (newTransaction sys) = Inr tx
        \<and> readSet tx = []"
  then have "fst (commit tx (env 0 sys))" by (simp add: commit_empty_readSet)
  then show "retryLoop env l 0 0 [] sys
           = \<lparr>success = True, attempts = 0, closureCalls = 1, cout = [],
              after = snd (commit tx (env 0 sys))\<rparr>"
    using a by (subst retryLoop.simps) (simp add: Let_def)
next
  assume a: "runLogic (\<lambda>tx. readA tx dsA) writeA l (newSpecTransaction False) = Inr atx
        \<and> readSetA atx = []"
  then show "executeTransactionA envA l 0 dsA
           = Some (Inr (), 1, applyWriteSetA (writeSetA atx) (envA 0 dsA))"
    by (subst executeTransactionA.simps) (simp add: commitA_def Let_def)
qed

theorem empty_read_set_never_conflicts_witness:
  "runLogic (\<lambda>tx. readBalance tx \<lparr>versionedData = [(1, [(0, 5 :: int)])], transactionQueue = [],
                                     globalClock = 0, activeTransactions = 0\<rparr>)
      updateBalance (Write 1 7 Return)
      (newTransaction \<lparr>versionedData = [(1, [(0, 5 :: int)])], transactionQueue = [],
                       globalClock = 0, activeTransactions = 0\<rparr>)
     = Inr \<lparr>readSet = [], writeSet = [(1, 7)], startTimestamp = 0\<rparr>
   \<and> success (retryLoop
        (\<lambda>n s. snd (commit \<lparr>readSet = [], writeSet = [(1, 9)], startTimestamp = 0\<rparr> s))
        (Write 1 7 Return) 0 0 []
        \<lparr>versionedData = [(1, [(0, 5 :: int)])], transactionQueue = [],
         globalClock = 0, activeTransactions = 0\<rparr>)
   \<and> closureCalls (retryLoop
        (\<lambda>n s. snd (commit \<lparr>readSet = [], writeSet = [(1, 9)], startTimestamp = 0\<rparr> s))
        (Write 1 7 Return) 0 0 []
        \<lparr>versionedData = [(1, [(0, 5 :: int)])], transactionQueue = [],
         globalClock = 0, activeTransactions = 0\<rparr>) = 1
   \<and> versionedData (after (retryLoop
        (\<lambda>n s. snd (commit \<lparr>readSet = [], writeSet = [(1, 9)], startTimestamp = 0\<rparr> s))
        (Write 1 7 Return) 0 0 []
        \<lparr>versionedData = [(1, [(0, 5 :: int)])], transactionQueue = [],
         globalClock = 0, activeTransactions = 0\<rparr>))
     = [(1, [(0, 5), (1, 9), (2, 7)])]
   \<and> runLogic (\<lambda>tx. readA tx [(1, \<lparr>cellContent = 5 :: int, version = 3\<rparr>)]) writeA
        (Write 1 7 Return) (newSpecTransaction False)
     = Inr \<lparr>readSetA = [], writeSetA = [(1, 7)], isSpeculative = False\<rparr>
   \<and> executeTransactionA
        (\<lambda>n ds. snd (commitA \<lparr>readSetA = [], writeSetA = [(1, 9)], isSpeculative = False\<rparr> ds))
        (Write 1 7 Return) 0 [(1, \<lparr>cellContent = 5 :: int, version = 3\<rparr>)]
     = Some (Inr (), 1, [(1, \<lparr>cellContent = 7, version = 5\<rparr>)])"
proof -
  let ?sys = "\<lparr>versionedData = [(1, [(0, 5 :: int)])], transactionQueue = [],
               globalClock = 0, activeTransactions = 0\<rparr>"
  let ?l = "Write 1 (7 :: int) Return"
  let ?tx = "\<lparr>readSet = [], writeSet = [(1, 7 :: int)], startTimestamp = 0\<rparr>"
  let ?env = "\<lambda>(n :: nat) s. snd (commit \<lparr>readSet = [], writeSet = [(1, 9 :: int)], startTimestamp = 0\<rparr> s)"
  let ?dsA = "[(1 :: nat, \<lparr>cellContent = 5 :: int, version = 3\<rparr>)]"
  let ?atx = "\<lparr>readSetA = [], writeSetA = [(1, 7 :: int)], isSpeculative = False\<rparr>"
  let ?envA = "\<lambda>(n :: nat) ds. snd (commitA \<lparr>readSetA = [], writeSetA = [(1, 9 :: int)], isSpeculative = False\<rparr> ds)"
  have h1: "runLogic (\<lambda>tx. readBalance tx ?sys) updateBalance ?l (newTransaction ?sys) = Inr ?tx"
    by code_simp
  have h2: "readSet ?tx = []" by simp
  have h3: "runLogic (\<lambda>tx. readA tx ?dsA) writeA ?l (newSpecTransaction False) = Inr ?atx"
    by code_simp
  have h4: "readSetA ?atx = []" by simp
  note t = empty_read_set_never_conflicts
             [where tx = ?tx and sys = ?sys and l = ?l and env = ?env and atx = ?atx
                and dsA = ?dsA and envA = ?envA]
  have r: "retryLoop ?env ?l 0 0 [] ?sys
           = \<lparr>success = True, attempts = 0, closureCalls = 1, cout = [],
              after = snd (commit ?tx (?env 0 ?sys))\<rparr>"
    using t h1 h2 by blast
  have v: "versionedData (snd (commit ?tx (?env 0 ?sys))) = [(1, [(0, 5), (1, 9), (2, 7)])]"
    by code_simp
  have ra: "executeTransactionA ?envA ?l 0 ?dsA
            = Some (Inr (), 1, applyWriteSetA (writeSetA ?atx) (?envA 0 ?dsA))"
    using t h3 h4 by blast
  have va: "applyWriteSetA (writeSetA ?atx) (?envA 0 ?dsA) = [(1, \<lparr>cellContent = 7, version = 5\<rparr>)]"
    by code_simp
  show ?thesis unfolding r ra va using h1 h3 v by simp
qed

section \<open>The priority queue\<close>


















section \<open>Reading the same key twice in one attempt\<close>


lemma returned_simps:
  "returned (Inl e) = Inl e" "returned (Inr (v, t)) = Inr v"
  by (simp_all add: returned_def)













section \<open>Closures that throw\<close>

lemma hybridSystemAt_same:
  "hybridSystemAt (\<lambda>n s. s) sys k
   = (if k = 0 \<or> \<not> useHTM sys then sys else sys\<lparr>useHTM := False\<rparr>)"
  by (induction k) auto

lemma hybrid_throwing_attempt:
  assumes "n < 10"
    and "runLogic (\<lambda>tx. fetchH tx sys) storeH l (newHybridTransaction (useHTM sys \<and> n = 0)) = Inl e"
  shows "executeTransactionH_from htm env l n calls sys =
           executeTransactionH_from htm env l (n + 1) (calls + 1)
             (if useHTM sys \<and> n = 0 then (env n sys)\<lparr>useHTM := False\<rparr> else env n sys)"
  using assms by (subst executeTransactionH_from.simps) (simp add: Let_def)

lemma hybrid_throws:
  assumes H: "\<forall>k<10. isl (runLogic (\<lambda>tx. fetchH tx (hybridSystemAt env sys k)) storeH l
                            (newHybridTransaction (useHTM (hybridSystemAt env sys k) \<and> k = 0)))"
  shows "j = 10 - n \<Longrightarrow> n \<le> 10 \<Longrightarrow>
     executeTransactionH_from htm env l n calls (hybridSystemAt env sys n) =
       (False, calls + (10 - n), hybridSystemAt env sys 10)"
proof (induction j arbitrary: n calls)
  case 0
  then have "n = 10" by simp
  then show ?case by (subst executeTransactionH_from.simps) simp
next
  case (Suc j)
  let ?s = "hybridSystemAt env sys n"
  let ?run = "runLogic (\<lambda>tx. fetchH tx ?s) storeH l (newHybridTransaction (useHTM ?s \<and> n = 0))"
  from Suc have n: "n < 10" and j: "j = 10 - (n + 1)" and e: "10 - n = Suc (9 - n)" by simp_all
  from H n have "isl ?run" by blast
  then have r: "?run = Inl (projl ?run)" by simp
  have "executeTransactionH_from htm env l n calls ?s
        = executeTransactionH_from htm env l (n + 1) (calls + 1) (hybridSystemAt env sys (n + 1))"
    using hybrid_throwing_attempt[OF n r, of htm env calls] by simp
  also have "\<dots> = (False, calls + 1 + (10 - (n + 1)), hybridSystemAt env sys 10)"
    using Suc.IH[OF j, of "calls + 1"] n by simp
  finally show ?case using n e by simp
qed

text \<open>
  Claim C6 fails as stated: the worker of the financial system catches the exception,
  prints it and retries. Scenario S3 of the specification, accounts 1 and 2 holding
  100 and 50 and a transfer of 200 that throws for lack of funds: the closure is called
  ten times, and what reaches the outside is ten printed lines.
\<close>

theorem throwing_closure_is_retried_counterexample:
  "runLogic (\<lambda>tx. readBalance tx \<lparr>versionedData = [(1, [(0, 100 :: int)]), (2, [(0, 50)])],
                                     transactionQueue = [], globalClock = 0, activeTransactions = 0\<rparr>)
      updateBalance
      (Read 1 (\<lambda>fromBalance. Read 2 (\<lambda>toBalance.
         if fromBalance \<ge> 200
         then Write 1 (fromBalance - 200) (Write 2 (toBalance + 200) Return)
         else Throw (runtime_error ''Insufficient funds for transfer''))))
      (newTransaction \<lparr>versionedData = [(1, [(0, 100 :: int)]), (2, [(0, 50)])],
                       transactionQueue = [], globalClock = 0, activeTransactions = 0\<rparr>)
     = Inl (runtime_error ''Insufficient funds for transfer'')
   \<and> closureCalls
        (retryLoop (\<lambda>n s. s)
           (Read 1 (\<lambda>fromBalance. Read 2 (\<lambda>toBalance.
              if fromBalance \<ge> 200
              then Write 1 (fromBalance - 200) (Write 2 (toBalance + 200) Return)
              else Throw (runtime_error ''Insufficient funds for transfer''))))
           0 0 []
           \<lparr>versionedData = [(1, [(0, 100 :: int)]), (2, [(0, 50)])],
            transactionQueue = [], globalClock = 0, activeTransactions = 0\<rparr>) = 10
   \<and> cout
        (retryLoop (\<lambda>n s. s)
           (Read 1 (\<lambda>fromBalance. Read 2 (\<lambda>toBalance.
              if fromBalance \<ge> 200
              then Write 1 (fromBalance - 200) (Write 2 (toBalance + 200) Return)
              else Throw (runtime_error ''Insufficient funds for transfer''))))
           0 0 []
           \<lparr>versionedData = [(1, [(0, 100 :: int)]), (2, [(0, 50)])],
            transactionQueue = [], globalClock = 0, activeTransactions = 0\<rparr>)
     = replicate 10 ''Transaction error: Insufficient funds for transfer''"
  by code_simp

text \<open>
  Claim C6, amended. When the closure throws, no write is applied. In \<^verbatim>\<open>STM.cpp\<close> the
  exception leaves \<^verbatim>\<open>executeTransaction\<close> as it is, after one call of the closure. The
  worker of the financial system and \<^verbatim>\<open>executeTransaction\<close> of the hybrid system catch
  it and count a failed attempt: the closure is called again, on the system as the other
  threads have left it. A closure that throws at every attempt is called exactly ten
  times, nothing of the submission reaches the store, and the submission ends as failed;
  the worker prints the message of each attempt, the hybrid system returns \<open>False\<close>.
\<close>

theorem throwing_closure_policy:
  "(runLogic (\<lambda>tx. fetch tx ds) store l newMemoryTransaction = Inl e
      \<longrightarrow> executeTransaction envM l ds = (Inl e, 1, ds))
   \<and> (n < 10 \<and> runLogic (\<lambda>tx. readBalance tx sys) updateBalance l (newTransaction sys) = Inl e
      \<longrightarrow> retryLoop env l n calls out sys
          = retryLoop env l (n + 1) (calls + 1) (out @ [''Transaction error: '' @ what e])
              (env n sys))
   \<and> ((\<forall>k<10. isl (runLogic (\<lambda>tx. readBalance tx (systemAt env sys k)) updateBalance l
                     (newTransaction (systemAt env sys k))))
      \<longrightarrow> retryLoop env l 0 0 [] sys
          = \<lparr>success = False, attempts = 10, closureCalls = 10,
             cout = map (\<lambda>k. ''Transaction error: '' @
                          what (projl (runLogic (\<lambda>tx. readBalance tx (systemAt env sys k))
                                         updateBalance l (newTransaction (systemAt env sys k)))))
                      [0..<10],
             after = systemAt env sys 10\<rparr>)
   \<and> (n < 10 \<and> runLogic (\<lambda>tx. fetchH tx hsys) storeH l
                  (newHybridTransaction (useHTM hsys \<and> n = 0)) = Inl e
      \<longrightarrow> executeTransactionH_from htm envH l n calls hsys
          = executeTransactionH_from htm envH l (n + 1) (calls + 1)
              (if useHTM hsys \<and> n = 0 then (envH n hsys)\<lparr>useHTM := False\<rparr> else envH n hsys))
   \<and> ((\<forall>k<10. isl (runLogic (\<lambda>tx. fetchH tx (hybridSystemAt envH hsys k)) storeH l
                     (newHybridTransaction (useHTM (hybridSystemAt envH hsys k) \<and> k = 0))))
      \<longrightarrow> executeTransactionH htm envH l hsys = (False, 10, hybridSystemAt envH hsys 10))"
proof (intro conjI impI)
  assume "runLogic (\<lambda>tx. fetch tx ds) store l newMemoryTransaction = Inl e"
  then show "executeTransaction envM l ds = (Inl e, 1, ds)" by (rule executeTransaction_throws)
next
  assume "n < 10 \<and> runLogic (\<lambda>tx. readBalance tx sys) updateBalance l (newTransaction sys) = Inl e"
  then show "retryLoop env l n calls out sys
          = retryLoop env l (n + 1) (calls + 1) (out @ [''Transaction error: '' @ what e])
              (env n sys)"
    using retryLoop_throwing_attempt[of n sys l e env calls out] by blast
next
  assume "\<forall>k<10. isl (runLogic (\<lambda>tx. readBalance tx (systemAt env sys k)) updateBalance l
                     (newTransaction (systemAt env sys k)))"
  from retryLoop_throws[OF this refl, of 0 0 "[]"]
  show "retryLoop env l 0 0 [] sys
          = \<lparr>success = False, attempts = 10, closureCalls = 10,
             cout = map (\<lambda>k. ''Transaction error: '' @
                          what (projl (runLogic (\<lambda>tx. readBalance tx (systemAt env sys k))
                                         updateBalance l (newTransaction (systemAt env sys k)))))
                      [0..<10],
             after = systemAt env sys 10\<rparr>"
    by simp
next
  assume "n < 10 \<and> runLogic (\<lambda>tx. fetchH tx hsys) storeH l
                  (newHybridTransaction (useHTM hsys \<and> n = 0)) = Inl e"
  then show "executeTransactionH_from htm envH l n calls hsys
          = executeTransactionH_from htm envH l (n + 1) (calls + 1)
              (if useHTM hsys \<and> n = 0 then (envH n hsys)\<lparr>useHTM := False\<rparr> else envH n hsys)"
    using hybrid_throwing_attempt[of n hsys l e htm envH calls] by blast
next
  assume "\<forall>k<10. isl (runLogic (\<lambda>tx. fetchH tx (hybridSystemAt envH hsys k)) storeH l
                     (newHybridTransaction (useHTM (hybridSystemAt envH hsys k) \<and> k = 0)))"
  from hybrid_throws[OF this refl, of 0 htm 0]
  show "executeTransactionH htm envH l hsys = (False, 10, hybridSystemAt envH hsys 10)"
    by (simp add: executeTransactionH_def)
qed

text \<open>
  A closure that reads the absent key 7 throws at every attempt. The transfer of scenario
  S3 throws at attempt 0; another thread then commits 300 to account 1, and attempt 1
  succeeds: the closure has been called twice.
\<close>

theorem throwing_closure_policy_witness:
  "runLogic (\<lambda>tx. fetch tx [(100, \<lparr>content = 5 :: int, modificationCount = 0\<rparr>)]) store
      (Read 7 (\<lambda>v. Return)) newMemoryTransaction
     = Inl (out_of_range ''Memory location not initialized'')
   \<and> executeTransaction (\<lambda>n s. s) (Read 7 (\<lambda>v. Return))
        [(100, \<lparr>content = 5 :: int, modificationCount = 0\<rparr>)]
     = (Inl (out_of_range ''Memory location not initialized''), 1,
        [(100, \<lparr>content = 5, modificationCount = 0\<rparr>)])
   \<and> runLogic (\<lambda>tx. readBalance tx \<lparr>versionedData = [(1, [(0, 100 :: int)])],
                                       transactionQueue = [], globalClock = 0,
                                       activeTransactions = 0\<rparr>)
        updateBalance (Read 7 (\<lambda>v. Return))
        (newTransaction \<lparr>versionedData = [(1, [(0, 100 :: int)])], transactionQueue = [],
                         globalClock = 0, activeTransactions = 0\<rparr>)
     = Inl (out_of_range ''Account not found'')
   \<and> retryLoop (\<lambda>n s. s) (Read 7 (\<lambda>v. Return)) 0 0 []
        \<lparr>versionedData = [(1, [(0, 100 :: int)])], transactionQueue = [],
         globalClock = 0, activeTransactions = 0\<rparr>
     = \<lparr>success = False, attempts = 10, closureCalls = 10,
        cout = replicate 10 ''Transaction error: Account not found'',
        after = \<lparr>versionedData = [(1, [(0, 100 :: int)])], transactionQueue = [],
                 globalClock = 0, activeTransactions = 0\<rparr>\<rparr>
   \<and> runLogic (\<lambda>tx. readBalance tx \<lparr>versionedData = [(1, [(0, 100 :: int)]), (2, [(0, 50)])],
                                       transactionQueue = [], globalClock = 0,
                                       activeTransactions = 0\<rparr>)
        updateBalance
        (Read 1 (\<lambda>fromBalance. Read 2 (\<lambda>toBalance.
           if fromBalance \<ge> 200
           then Write 1 (fromBalance - 200) (Write 2 (toBalance + 200) Return)
           else Throw (runtime_error ''Insufficient funds for transfer''))))
        (newTransaction \<lparr>versionedData = [(1, [(0, 100 :: int)]), (2, [(0, 50)])],
                         transactionQueue = [], globalClock = 0, activeTransactions = 0\<rparr>)
     = Inl (runtime_error ''Insufficient funds for transfer'')
   \<and> success
        (retryLoop
           (\<lambda>n s. if n = 0
                   then snd (commit \<lparr>readSet = [], writeSet = [(1, 300)], startTimestamp = 0\<rparr> s)
                   else s)
           (Read 1 (\<lambda>fromBalance. Read 2 (\<lambda>toBalance.
              if fromBalance \<ge> 200
              then Write 1 (fromBalance - 200) (Write 2 (toBalance + 200) Return)
              else Throw (runtime_error ''Insufficient funds for transfer''))))
           0 0 []
           \<lparr>versionedData = [(1, [(0, 100 :: int)]), (2, [(0, 50)])],
            transactionQueue = [], globalClock = 0, activeTransactions = 0\<rparr>)
   \<and> closureCalls
        (retryLoop
           (\<lambda>n s. if n = 0
                   then snd (commit \<lparr>readSet = [], writeSet = [(1, 300)], startTimestamp = 0\<rparr> s)
                   else s)
           (Read 1 (\<lambda>fromBalance. Read 2 (\<lambda>toBalance.
              if fromBalance \<ge> 200
              then Write 1 (fromBalance - 200) (Write 2 (toBalance + 200) Return)
              else Throw (runtime_error ''Insufficient funds for transfer''))))
           0 0 []
           \<lparr>versionedData = [(1, [(0, 100 :: int)]), (2, [(0, 50)])],
            transactionQueue = [], globalClock = 0, activeTransactions = 0\<rparr>) = 2
   \<and> versionedData (after
        (retryLoop
           (\<lambda>n s. if n = 0
                   then snd (commit \<lparr>readSet = [], writeSet = [(1, 300)], startTimestamp = 0\<rparr> s)
                   else s)
           (Read 1 (\<lambda>fromBalance. Read 2 (\<lambda>toBalance.
              if fromBalance \<ge> 200
              then Write 1 (fromBalance - 200) (Write 2 (toBalance + 200) Return)
              else Throw (runtime_error ''Insufficient funds for transfer''))))
           0 0 []
           \<lparr>versionedData = [(1, [(0, 100 :: int)]), (2, [(0, 50)])],
            transactionQueue = [], globalClock = 0, activeTransactions = 0\<rparr>))
     = [(1, [(0, 100), (1, 300), (2, 100)]), (2, [(0, 50), (2, 250)])]
   \<and> isl (runLogic (\<lambda>tx. fetchH tx \<lparr>dataStore = [(100, \<lparr>content = 5 :: int, modificationCount = 0\<rparr>)],
                                       useHTM = True, draws = 0\<rparr>)
            storeH (Read 7 (\<lambda>v. Return)) (newHybridTransaction True))
   \<and> executeTransactionH (\<lambda>i. True) (\<lambda>n s. s) (Read 7 (\<lambda>v. Return))
        \<lparr>dataStore = [(100, \<lparr>content = 5 :: int, modificationCount = 0\<rparr>)],
         useHTM = True, draws = 0\<rparr>
     = (False, 10, \<lparr>dataStore = [(100, \<lparr>content = 5, modificationCount = 0\<rparr>)],
                    useHTM = False, draws = 0\<rparr>)"
proof -
  let ?ds = "[(100 :: nat, \<lparr>content = 5 :: int, modificationCount = 0\<rparr>)]"
  let ?sys = "\<lparr>versionedData = [(1, [(0, 100 :: int)])], transactionQueue = [],
               globalClock = 0, activeTransactions = 0\<rparr>"
  let ?sysT = "\<lparr>versionedData = [(1, [(0, 100 :: int)]), (2, [(0, 50)])],
                transactionQueue = [], globalClock = 0, activeTransactions = 0\<rparr>"
  let ?hsys = "\<lparr>dataStore = ?ds, useHTM = True, draws = 0\<rparr>"
  let ?l = "Read 7 (\<lambda>v :: int. Return)"
  let ?t = "Read 1 (\<lambda>fromBalance :: int. Read 2 (\<lambda>toBalance.
              if fromBalance \<ge> 200
              then Write 1 (fromBalance - 200) (Write 2 (toBalance + 200) Return)
              else Throw (runtime_error ''Insufficient funds for transfer'')))"
  let ?envT = "\<lambda>(n :: nat) s. if n = 0
                   then snd (commit \<lparr>readSet = [], writeSet = [(1, 300 :: int)], startTimestamp = 0\<rparr> s)
                   else s"
  let ?m = "''Transaction error: '' @ what (runtime_error ''Insufficient funds for transfer'')"
  have h1: "runLogic (\<lambda>tx. fetch tx ?ds) store ?l newMemoryTransaction
            = Inl (out_of_range ''Memory location not initialized'')" by code_simp
  have h2: "runLogic (\<lambda>tx. readBalance tx ?sys) updateBalance ?l (newTransaction ?sys)
            = Inl (out_of_range ''Account not found'')" by code_simp
  have h2': "\<forall>k<10. isl (runLogic (\<lambda>tx. readBalance tx (systemAt (\<lambda>n s. s) ?sys k)) updateBalance ?l
                      (newTransaction (systemAt (\<lambda>n s. s) ?sys k)))"
    using h2 by (simp add: systemAt_same)
  have h3: "\<forall>k<10. isl (runLogic (\<lambda>tx. fetchH tx (hybridSystemAt (\<lambda>n s. s) ?hsys k)) storeH ?l
                      (newHybridTransaction (useHTM (hybridSystemAt (\<lambda>n s. s) ?hsys k) \<and> k = 0)))"
    by (simp add: hybridSystemAt_same fetchH_def newHybridTransaction_def)
  have h4: "runLogic (\<lambda>tx. readBalance tx ?sysT) updateBalance ?t (newTransaction ?sysT)
            = Inl (runtime_error ''Insufficient funds for transfer'')" by code_simp
  note a = throwing_closure_policy
             [where ds = ?ds and l = ?l and e = "out_of_range ''Memory location not initialized''"
                and envM = "\<lambda>n s. s"]
  note b = throwing_closure_policy [where sys = ?sys and l = ?l and env = "\<lambda>n s. s"]
  note c = throwing_closure_policy
             [where hsys = ?hsys and l = ?l and htm = "\<lambda>i. True" and envH = "\<lambda>n s. s"]
  note d = throwing_closure_policy
             [where sys = ?sysT and l = ?t and env = ?envT and n = 0 and calls = 0 and out = "[]"
                and e = "runtime_error ''Insufficient funds for transfer''"]
  have c1: "executeTransaction (\<lambda>n s. s) ?l ?ds
            = (Inl (out_of_range ''Memory location not initialized''), 1, ?ds)"
    using a h1 by blast
  have "retryLoop (\<lambda>n s. s) ?l 0 0 [] ?sys
        = \<lparr>success = False, attempts = 10, closureCalls = 10,
           cout = map (\<lambda>k. ''Transaction error: '' @
                        what (projl (runLogic (\<lambda>tx. readBalance tx (systemAt (\<lambda>n s. s) ?sys k))
                                       updateBalance ?l (newTransaction (systemAt (\<lambda>n s. s) ?sys k)))))
                    [0..<10],
           after = systemAt (\<lambda>n s. s) ?sys 10\<rparr>"
    using b h2' by blast
  then have c2: "retryLoop (\<lambda>n s. s) ?l 0 0 [] ?sys
        = \<lparr>success = False, attempts = 10, closureCalls = 10,
           cout = replicate 10 ''Transaction error: Account not found'', after = ?sys\<rparr>"
    unfolding systemAt_same h2 by (simp add: map_replicate_const)
  have "executeTransactionH (\<lambda>i. True) (\<lambda>n s. s) ?l ?hsys
            = (False, 10, hybridSystemAt (\<lambda>n s. s) ?hsys 10)"
    using c h3 by blast
  then have c3: "executeTransactionH (\<lambda>i. True) (\<lambda>n s. s) ?l ?hsys
            = (False, 10, ?hsys\<lparr>useHTM := False\<rparr>)"
    by (simp add: hybridSystemAt_same)
  have h3': "isl (runLogic (\<lambda>tx. fetchH tx ?hsys) storeH ?l (newHybridTransaction True))"
    by (simp add: fetchH_def newHybridTransaction_def)
  have e: "retryLoop ?envT ?t 0 0 [] ?sysT
           = retryLoop ?envT ?t (0 + 1) (0 + 1) ([] @ [?m]) (?envT 0 ?sysT)"
    using conjunct1[OF conjunct2[OF d]] h4 by simp
  have e1: "success (retryLoop ?envT ?t (0 + 1) (0 + 1) ([] @ [?m]) (?envT 0 ?sysT))" by code_simp
  have e2: "closureCalls (retryLoop ?envT ?t (0 + 1) (0 + 1) ([] @ [?m]) (?envT 0 ?sysT)) = 2"
    by code_simp
  have e3: "versionedData (after (retryLoop ?envT ?t (0 + 1) (0 + 1) ([] @ [?m]) (?envT 0 ?sysT)))
            = [(1, [(0, 100), (1, 300), (2, 100)]), (2, [(0, 50), (2, 250)])]"
    by code_simp
  have c4: "success (retryLoop ?envT ?t 0 0 [] ?sysT)" using e e1 by simp
  have c5: "closureCalls (retryLoop ?envT ?t 0 0 [] ?sysT) = 2" using e e2 by simp
  have c6: "versionedData (after (retryLoop ?envT ?t 0 0 [] ?sysT))
            = [(1, [(0, 100), (1, 300), (2, 100)]), (2, [(0, 50), (2, 250)])]"
    using e e3 by simp
  show ?thesis using h1 h2 h3' h4 c1 c2 c3 c4 c5 c6 by simp
qed

section \<open>The attempt budget\<close>

lemma word_succ_neq: "(w :: 32 word) + 1 \<noteq> w"
  by simp

lemma advanced_attempt_conflicts:
  fixes ds :: "(nat \<times> int VersionedCell) list"
  assumes c: "map_of ds 100 = Some c"
  defines "adv \<equiv> snd (commitA \<lparr>readSetA = [], writeSetA = [(100, 0)], isSpeculative = False\<rparr> ds)"
  shows "\<exists>tx. runLogic (\<lambda>tx. readA tx ds) writeA (Read 100 (\<lambda>v. Write 100 (v + 1) Return))
               (newSpecTransaction False) = Inr tx
              \<and> commitA tx adv = (False, adv)"
    and "map_of adv 100 \<noteq> None"
proof -
  have adv: "map_of adv 100 = Some (c\<lparr>cellContent := 0, version := version c + 1\<rparr>)"
    using c by (simp add: adv_def commitA_def map_of_map_assign)
  then show "map_of adv 100 \<noteq> None" by simp
  let ?tx = "\<lparr>readSetA = [(100, (cellContent c, version c))],
              writeSetA = [(100, cellContent c + 1)], isSpeculative = False\<rparr>"
  have "runLogic (\<lambda>tx. readA tx ds) writeA (Read 100 (\<lambda>v. Write 100 (v + 1) Return))
               (newSpecTransaction False) = Inr ?tx"
    using c by (simp add: readA_def writeA_def newSpecTransaction_def)
  moreover have "commitA ?tx adv = (False, adv)"
    using adv by (simp add: commitA_def)
  ultimately show "\<exists>tx. runLogic (\<lambda>tx. readA tx ds) writeA (Read 100 (\<lambda>v. Write 100 (v + 1) Return))
               (newSpecTransaction False) = Inr tx
              \<and> commitA tx adv = (False, adv)" by blast
qed

lemma advanced_never_returns:
  fixes ds :: "(nat \<times> int VersionedCell) list"
  assumes "executeTransactionA env l n ds = Some y"
  shows "env = (\<lambda>n ds. snd (commitA \<lparr>readSetA = [], writeSetA = [(100, 0)], isSpeculative = False\<rparr> ds))
         \<longrightarrow> l = Read 100 (\<lambda>v. Write 100 (v + 1) Return) \<longrightarrow> map_of ds 100 \<noteq> None \<longrightarrow> False"
proof (rule executeTransactionA.raw_induct
        [where P = "\<lambda>env l n ds y.
            env = (\<lambda>n ds. snd (commitA \<lparr>readSetA = [], writeSetA = [(100, 0)], isSpeculative = False\<rparr> ds))
            \<longrightarrow> l = Read 100 (\<lambda>v. Write 100 (v + 1) Return) \<longrightarrow> map_of ds 100 \<noteq> None \<longrightarrow> False",
         OF _ assms], goal_cases)
  case (1 f env l n ds y)
  show ?case
  proof (intro impI)
    assume env: "env = (\<lambda>n ds. snd (commitA \<lparr>readSetA = [], writeSetA = [(100, 0)], isSpeculative = False\<rparr> ds))"
      and l: "l = Read 100 (\<lambda>v. Write 100 (v + 1) Return)"
      and k: "map_of ds 100 \<noteq> None"
    then obtain c where c: "map_of ds 100 = Some c" by blast
    from advanced_attempt_conflicts[OF c] obtain tx where
      run: "runLogic (\<lambda>tx. readA tx ds) writeA l (newSpecTransaction False) = Inr tx"
      and cf: "commitA tx (env n ds) = (False, env n ds)"
      and k': "map_of (env n ds) 100 \<noteq> None"
      unfolding env l by blast
    from 1(2) have "f env l (n + 1) (env n ds) = Some y"
      unfolding run using cf by (simp add: Let_def)
    from 1(1)[OF this] env l k' show False by blast
  qed
qed

lemma retryLoop_budget:
  "n \<le> 10 \<Longrightarrow>
     (success (retryLoop env l n calls out sys) \<longrightarrow>
        attempts (retryLoop env l n calls out sys) < 10
        \<and> n \<le> attempts (retryLoop env l n calls out sys)
        \<and> closureCalls (retryLoop env l n calls out sys)
            = calls + (attempts (retryLoop env l n calls out sys) - n) + 1)
     \<and> (\<not> success (retryLoop env l n calls out sys) \<longrightarrow>
        attempts (retryLoop env l n calls out sys) = 10
        \<and> closureCalls (retryLoop env l n calls out sys) = calls + (10 - n))"
proof (induction env l n calls out sys rule: retryLoop.induct)
  case (1 env l n calls out sys)
  show ?case
  proof (cases "n < 10")
    case False
    then show ?thesis using "1.prems" by (subst (1 2 3 4 5 6 7) retryLoop.simps) simp
  next
    case n: True
    show ?thesis
    proof (cases "runLogic (\<lambda>tx. readBalance tx sys) updateBalance l (newTransaction sys)")
      case (Inl e)
      have eq: "retryLoop env l n calls out sys
                = retryLoop env l (n + 1) (calls + 1) (out @ [''Transaction error: '' @ what e])
                    (env n sys)"
        using n Inl by (subst retryLoop.simps) simp
      show ?thesis unfolding eq using "1.IH"(1)[OF n Inl] n by auto
    next
      case (Inr tx)
      show ?thesis
      proof (cases "fst (commit tx (env n sys))")
        case True
        have eq: "retryLoop env l n calls out sys
                  = \<lparr>success = True, attempts = n, closureCalls = calls + 1, cout = out,
                     after = snd (commit tx (env n sys))\<rparr>"
          using n Inr True by (subst retryLoop.simps) (simp add: Let_def)
        show ?thesis unfolding eq using n by simp
      next
        case False
        have eq: "retryLoop env l n calls out sys
                  = retryLoop env l (n + 1) (calls + 1) out (snd (commit tx (env n sys)))"
          using n Inr False by (subst retryLoop.simps) (simp add: Let_def)
        show ?thesis unfolding eq using "1.IH"(2)[OF n Inr refl False] n by auto
      qed
    qed
  qed
qed

lemma retryLoop_commits:
  "success (retryLoop env l n calls out sys) \<Longrightarrow>
     \<exists>s tx. runLogic (\<lambda>tx. readBalance tx s) updateBalance l (newTransaction s) = Inr tx
        \<and> commit tx (env (attempts (retryLoop env l n calls out sys)) s)
            = (True, after (retryLoop env l n calls out sys))"
proof (induction env l n calls out sys rule: retryLoop.induct)
  case (1 env l n calls out sys)
  show ?case
  proof (cases "n < 10")
    case False
    then have "\<not> success (retryLoop env l n calls out sys)"
      by (subst retryLoop.simps) simp
    then show ?thesis using "1.prems" by simp
  next
    case n: True
    show ?thesis
    proof (cases "runLogic (\<lambda>tx. readBalance tx sys) updateBalance l (newTransaction sys)")
      case (Inl e)
      have eq: "retryLoop env l n calls out sys
                = retryLoop env l (n + 1) (calls + 1) (out @ [''Transaction error: '' @ what e])
                    (env n sys)"
        using n Inl by (subst retryLoop.simps) simp
      show ?thesis using "1.prems" unfolding eq by (rule "1.IH"(1)[OF n Inl])
    next
      case (Inr tx)
      show ?thesis
      proof (cases "fst (commit tx (env n sys))")
        case True
        have eq: "retryLoop env l n calls out sys
                  = \<lparr>success = True, attempts = n, closureCalls = calls + 1, cout = out,
                     after = snd (commit tx (env n sys))\<rparr>"
          using n Inr True by (subst retryLoop.simps) (simp add: Let_def)
        have c: "commit tx (env n sys) = (True, snd (commit tx (env n sys)))"
          using True by (metis prod.collapse)
        show ?thesis unfolding eq
          by (rule exI[of _ sys], rule exI[of _ tx]) (simp add: Inr c[symmetric])
      next
        case False
        have eq: "retryLoop env l n calls out sys
                  = retryLoop env l (n + 1) (calls + 1) out (snd (commit tx (env n sys)))"
          using n Inr False by (subst retryLoop.simps) (simp add: Let_def)
        show ?thesis using "1.prems" unfolding eq by (rule "1.IH"(2)[OF n Inr refl False])
      qed
    qed
  qed
qed

lemma executeTransaction_from_budget:
  "n \<le> 3 \<Longrightarrow>
     fst (snd (executeTransaction_from env l n ds)) \<le> 3
     \<and> (\<forall>e. fst (executeTransaction_from env l n ds) = Inl e \<longrightarrow>
           (e = runtime_error ''Transaction failed after multiple attempts''
            \<and> fst (snd (executeTransaction_from env l n ds)) = 3)
           \<or> (\<exists>s. runLogic (\<lambda>tx. fetch tx s) store l newMemoryTransaction = Inl e))"
proof (induction env l n ds rule: executeTransaction_from.induct)
  case (1 env l n ds)
  show ?case
  proof (cases "n < 3")
    case False
    then show ?thesis using "1.prems" by (subst (1 2 3) executeTransaction_from.simps) simp
  next
    case n: True
    show ?thesis
    proof (cases "runLogic (\<lambda>tx. fetch tx ds) store l newMemoryTransaction")
      case (Inl e)
      have eq: "executeTransaction_from env l n ds = (Inl e, n + 1, ds)"
        using n Inl by (subst executeTransaction_from.simps) simp
      show ?thesis unfolding eq using n Inl by auto
    next
      case (Inr tx)
      show ?thesis
      proof (cases "fst (finalizeTransaction tx (env n ds))")
        case True
        have eq: "executeTransaction_from env l n ds
                  = (Inr (), n + 1, snd (finalizeTransaction tx (env n ds)))"
          using n Inr True by (subst executeTransaction_from.simps) (simp add: Let_def)
        show ?thesis unfolding eq using n by simp
      next
        case False
        have eq: "executeTransaction_from env l n ds
                  = executeTransaction_from env l (n + 1) (snd (finalizeTransaction tx (env n ds)))"
          using n Inr False by (subst executeTransaction_from.simps) (simp add: Let_def)
        show ?thesis unfolding eq using "1.IH"[OF n Inr refl False] n by simp
      qed
    qed
  qed
qed

lemma executeTransaction_from_commits:
  "fst (executeTransaction_from env l n ds) = Inr () \<Longrightarrow>
     \<exists>m s tx. m < 3 \<and> fst (snd (executeTransaction_from env l n ds)) = m + 1
        \<and> runLogic (\<lambda>tx. fetch tx s) store l newMemoryTransaction = Inr tx
        \<and> finalizeTransaction tx (env m s) = (True, snd (snd (executeTransaction_from env l n ds)))"
proof (induction env l n ds rule: executeTransaction_from.induct)
  case (1 env l n ds)
  show ?case
  proof (cases "n < 3")
    case False
    then have "fst (executeTransaction_from env l n ds) \<noteq> Inr ()"
      by (subst executeTransaction_from.simps) simp
    then show ?thesis using "1.prems" by simp
  next
    case n: True
    show ?thesis
    proof (cases "runLogic (\<lambda>tx. fetch tx ds) store l newMemoryTransaction")
      case (Inl e)
      have "executeTransaction_from env l n ds = (Inl e, n + 1, ds)"
        using n Inl by (subst executeTransaction_from.simps) simp
      then show ?thesis using "1.prems" by simp
    next
      case (Inr tx)
      show ?thesis
      proof (cases "fst (finalizeTransaction tx (env n ds))")
        case True
        have eq: "executeTransaction_from env l n ds
                  = (Inr (), n + 1, snd (finalizeTransaction tx (env n ds)))"
          using n Inr True by (subst executeTransaction_from.simps) (simp add: Let_def)
        have c: "finalizeTransaction tx (env n ds) = (True, snd (finalizeTransaction tx (env n ds)))"
          using True by (metis prod.collapse)
        show ?thesis unfolding eq
          by (rule exI[of _ n], rule exI[of _ ds], rule exI[of _ tx]) (simp add: n Inr c[symmetric])
      next
        case False
        have eq: "executeTransaction_from env l n ds
                  = executeTransaction_from env l (n + 1) (snd (finalizeTransaction tx (env n ds)))"
          using n Inr False by (subst executeTransaction_from.simps) (simp add: Let_def)
        show ?thesis using "1.prems" unfolding eq by (rule "1.IH"[OF n Inr refl False])
      qed
    qed
  qed
qed

lemma to_string_10: "to_string 10 = ''10''"
  by code_simp

lemma workerFunction_verdict:
  assumes "workerFunction env sys = Some (info, w)"
  shows "closureCalls w \<le> 10 \<and>
         last (cout w) = (if success w then ''Transaction succeeded: '' @ description info
                          else ''Transaction failed after 10 attempts: '' @ description info)"
proof -
  let ?r = "\<lambda>rest. retryLoop env (logic info) 0 0 [] (sys\<lparr>transactionQueue := rest\<rparr>)"
  from assms obtain rest where
    w: "w = (?r rest)\<lparr>cout := cout (?r rest) @
               [if success (?r rest) then ''Transaction succeeded: '' @ description info
                else ''Transaction failed after '' @ to_string 10 @ '' attempts: ''
                     @ description info],
             after := (after (?r rest))\<lparr>activeTransactions :=
                        activeTransactions (after (?r rest)) - 1\<rparr>\<rparr>"
    by (auto simp: workerFunction_def Let_def split: option.splits)
  have b: "closureCalls (?r rest) \<le> 10"
    using retryLoop_budget[of 0 env "logic info" 0 "[]" "sys\<lparr>transactionQueue := rest\<rparr>"]
    by (cases "success (?r rest)") auto
  show ?thesis unfolding w using b by (simp add: to_string_10)
qed

text \<open>
  Claim C7 fails as stated. In \<^verbatim>\<open>STM.cpp\<close> a closure that throws ends the submission with
  its own exception, which is neither a commit nor the exhaustion failure. In
  \<^verbatim>\<open>advanced.cpp\<close> the loop has no bound: against a writer that commits to key 100
  before each of its commits, the task that increments key 100 never returns.
\<close>

theorem retry_budget_counterexample:
  "executeTransaction (\<lambda>n s. s) (Read 7 (\<lambda>v :: int. Return))
       [(100, \<lparr>content = 5, modificationCount = 0\<rparr>)]
     = (Inl (out_of_range ''Memory location not initialized''), 1,
        [(100, \<lparr>content = 5, modificationCount = 0\<rparr>)])
   \<and> executeTransactionA
       (\<lambda>n ds. snd (commitA \<lparr>readSetA = [], writeSetA = [(100, 0)], isSpeculative = False\<rparr> ds))
       (Read 100 (\<lambda>v. Write 100 (v + 1) Return)) 0
       [(100, \<lparr>cellContent = 0 :: int, version = 0\<rparr>)] = None"
proof
  have "runLogic (\<lambda>tx. fetch tx [(100, \<lparr>content = 5 :: int, modificationCount = 0\<rparr>)]) store
          (Read 7 (\<lambda>v. Return)) newMemoryTransaction
        = Inl (out_of_range ''Memory location not initialized'')"
    by code_simp
  then show "executeTransaction (\<lambda>n s. s) (Read 7 (\<lambda>v :: int. Return))
       [(100, \<lparr>content = 5, modificationCount = 0\<rparr>)]
     = (Inl (out_of_range ''Memory location not initialized''), 1,
        [(100, \<lparr>content = 5, modificationCount = 0\<rparr>)])"
    by (rule executeTransaction_throws)
next
  show "executeTransactionA
       (\<lambda>n ds. snd (commitA \<lparr>readSetA = [], writeSetA = [(100, 0)], isSpeculative = False\<rparr> ds))
       (Read 100 (\<lambda>v. Write 100 (v + 1) Return)) 0
       [(100, \<lparr>cellContent = 0 :: int, version = 0\<rparr>)] = None"
  proof (cases "executeTransactionA
       (\<lambda>n ds. snd (commitA \<lparr>readSetA = [], writeSetA = [(100, 0)], isSpeculative = False\<rparr> ds))
       (Read 100 (\<lambda>v. Write 100 (v + 1) Return)) 0
       [(100, \<lparr>cellContent = 0 :: int, version = 0\<rparr>)]")
    case None
    then show ?thesis .
  next
    case (Some y)
    from advanced_never_returns[OF Some] show ?thesis by simp
  qed
qed

text \<open>
  Claim C7, amended. In \<^verbatim>\<open>STM.cpp\<close> the closure is called at most 3 times, and
  \<^verbatim>\<open>executeTransaction\<close> ends in one of three ways: it returns after a successful
  \<^verbatim>\<open>finalizeTransaction\<close>; it throws "Transaction failed after multiple attempts" after
  exactly 3 calls; or it passes on an exception of the closure. In the financial system
  the closure is called at most 10 times: the worker's loop either succeeds after a
  successful \<^verbatim>\<open>commit\<close>, in fewer than 10 failed attempts, or fails after exactly 10
  calls, and the worker prints the matching verdict. (The advanced variant has no
  budget.)
\<close>

theorem retry_budget:
  "fst (snd (executeTransaction envM l ds)) \<le> 3
   \<and> (fst (executeTransaction envM l ds) = Inr () \<longrightarrow>
        (\<exists>m s tx. m < 3 \<and> fst (snd (executeTransaction envM l ds)) = m + 1
           \<and> runLogic (\<lambda>tx. fetch tx s) store l newMemoryTransaction = Inr tx
           \<and> finalizeTransaction tx (envM m s) = (True, snd (snd (executeTransaction envM l ds)))))
   \<and> (\<forall>e. fst (executeTransaction envM l ds) = Inl e \<longrightarrow>
         (e = runtime_error ''Transaction failed after multiple attempts''
          \<and> fst (snd (executeTransaction envM l ds)) = 3)
         \<or> (\<exists>s. runLogic (\<lambda>tx. fetch tx s) store l newMemoryTransaction = Inl e))
   \<and> closureCalls (retryLoop env l 0 0 [] sys) \<le> 10
   \<and> (success (retryLoop env l 0 0 [] sys) \<longrightarrow>
        attempts (retryLoop env l 0 0 [] sys) < 10
        \<and> closureCalls (retryLoop env l 0 0 [] sys) = attempts (retryLoop env l 0 0 [] sys) + 1
        \<and> (\<exists>s tx. runLogic (\<lambda>tx. readBalance tx s) updateBalance l (newTransaction s) = Inr tx
             \<and> commit tx (env (attempts (retryLoop env l 0 0 [] sys)) s)
                 = (True, after (retryLoop env l 0 0 [] sys))))
   \<and> (\<not> success (retryLoop env l 0 0 [] sys) \<longrightarrow>
        attempts (retryLoop env l 0 0 [] sys) = 10
        \<and> closureCalls (retryLoop env l 0 0 [] sys) = 10)
   \<and> (\<forall>info w. workerFunction env sys = Some (info, w) \<longrightarrow>
        closureCalls w \<le> 10
        \<and> last (cout w) = (if success w then ''Transaction succeeded: '' @ description info
                            else ''Transaction failed after 10 attempts: '' @ description info))"
proof (intro conjI)
  note a = executeTransaction_from_budget[of 0 envM l ds, folded executeTransaction_def]
  show "fst (snd (executeTransaction envM l ds)) \<le> 3" using a by simp
  show "\<forall>e. fst (executeTransaction envM l ds) = Inl e \<longrightarrow>
         (e = runtime_error ''Transaction failed after multiple attempts''
          \<and> fst (snd (executeTransaction envM l ds)) = 3)
         \<or> (\<exists>s. runLogic (\<lambda>tx. fetch tx s) store l newMemoryTransaction = Inl e)"
    using a by simp
  show "fst (executeTransaction envM l ds) = Inr () \<longrightarrow>
        (\<exists>m s tx. m < 3 \<and> fst (snd (executeTransaction envM l ds)) = m + 1
           \<and> runLogic (\<lambda>tx. fetch tx s) store l newMemoryTransaction = Inr tx
           \<and> finalizeTransaction tx (envM m s) = (True, snd (snd (executeTransaction envM l ds))))"
    using executeTransaction_from_commits[of envM l 0 ds, folded executeTransaction_def]
    by (rule impI)
  note b = retryLoop_budget[of 0 env l 0 "[]" sys]
  show "closureCalls (retryLoop env l 0 0 [] sys) \<le> 10"
    using b by (cases "success (retryLoop env l 0 0 [] sys)") auto
  show "success (retryLoop env l 0 0 [] sys) \<longrightarrow>
        attempts (retryLoop env l 0 0 [] sys) < 10
        \<and> closureCalls (retryLoop env l 0 0 [] sys) = attempts (retryLoop env l 0 0 [] sys) + 1
        \<and> (\<exists>s tx. runLogic (\<lambda>tx. readBalance tx s) updateBalance l (newTransaction s) = Inr tx
             \<and> commit tx (env (attempts (retryLoop env l 0 0 [] sys)) s)
                 = (True, after (retryLoop env l 0 0 [] sys)))"
  proof (intro impI conjI)
    assume s: "success (retryLoop env l 0 0 [] sys)"
    show "attempts (retryLoop env l 0 0 [] sys) < 10" using b s by simp
    show "closureCalls (retryLoop env l 0 0 [] sys) = attempts (retryLoop env l 0 0 [] sys) + 1"
      using b s by simp
    show "\<exists>s tx. runLogic (\<lambda>tx. readBalance tx s) updateBalance l (newTransaction s) = Inr tx
             \<and> commit tx (env (attempts (retryLoop env l 0 0 [] sys)) s)
                 = (True, after (retryLoop env l 0 0 [] sys))"
      using s by (rule retryLoop_commits)
  qed
  show "\<not> success (retryLoop env l 0 0 [] sys) \<longrightarrow>
        attempts (retryLoop env l 0 0 [] sys) = 10
        \<and> closureCalls (retryLoop env l 0 0 [] sys) = 10"
    using b by simp
  show "\<forall>info w. workerFunction env sys = Some (info, w) \<longrightarrow>
        closureCalls w \<le> 10
        \<and> last (cout w) = (if success w then ''Transaction succeeded: '' @ description info
                            else ''Transaction failed after 10 attempts: '' @ description info)"
    using workerFunction_verdict by blast
qed

theorem retry_budget_witness:
  "fst (executeTransaction (\<lambda>n s. s) (Read 100 (\<lambda>v. Write 100 (v + 1) Return))
          [(100, \<lparr>content = 5 :: int, modificationCount = 0\<rparr>)]) = Inr ()
   \<and> (\<exists>(m :: nat) s tx. m < 3
          \<and> runLogic (\<lambda>tx. fetch tx s) store (Read 100 (\<lambda>v. Write 100 (v + 1) Return))
                newMemoryTransaction = Inr tx
          \<and> finalizeTransaction tx s
              = (True, snd (snd (executeTransaction (\<lambda>n s. s)
                                   (Read 100 (\<lambda>v. Write 100 (v + 1) Return))
                                   [(100, \<lparr>content = 5 :: int, modificationCount = 0\<rparr>)]))))
   \<and> fst (executeTransaction
            (\<lambda>n s. snd (finalizeTransaction \<lparr>readLog = [], writeBuffer = [(100, 0)]\<rparr> s))
            (Read 100 (\<lambda>v. Write 100 (v + 1) Return))
            [(100, \<lparr>content = 5 :: int, modificationCount = 0\<rparr>)])
       = Inl (runtime_error ''Transaction failed after multiple attempts'')
   \<and> fst (snd (executeTransaction
            (\<lambda>n s. snd (finalizeTransaction \<lparr>readLog = [], writeBuffer = [(100, 0)]\<rparr> s))
            (Read 100 (\<lambda>v. Write 100 (v + 1) Return))
            [(100, \<lparr>content = 5 :: int, modificationCount = 0\<rparr>)])) \<le> 3
   \<and> success (retryLoop
        (\<lambda>n s. if n = 0
                then snd (commit \<lparr>readSet = [], writeSet = [(1, 9)], startTimestamp = 0\<rparr> s)
                else s)
        (Read 1 (\<lambda>v. Write 1 (v + 1) Return)) 0 0 []
        \<lparr>versionedData = [(1, [(0, 5 :: int)])], transactionQueue = [],
         globalClock = 0, activeTransactions = 0\<rparr>)
   \<and> closureCalls (retryLoop
        (\<lambda>n s. if n = 0
                then snd (commit \<lparr>readSet = [], writeSet = [(1, 9)], startTimestamp = 0\<rparr> s)
                else s)
        (Read 1 (\<lambda>v. Write 1 (v + 1) Return)) 0 0 []
        \<lparr>versionedData = [(1, [(0, 5 :: int)])], transactionQueue = [],
         globalClock = 0, activeTransactions = 0\<rparr>) = 2
   \<and> \<not> success (retryLoop
        (\<lambda>n s. snd (commit \<lparr>readSet = [], writeSet = [(1, 9)], startTimestamp = 0\<rparr> s))
        (Read 1 (\<lambda>v. Write 1 (v + 1) Return)) 0 0 []
        \<lparr>versionedData = [(1, [(0, 5 :: int)])], transactionQueue = [],
         globalClock = 0, activeTransactions = 0\<rparr>)
   \<and> closureCalls (retryLoop
        (\<lambda>n s. snd (commit \<lparr>readSet = [], writeSet = [(1, 9)], startTimestamp = 0\<rparr> s))
        (Read 1 (\<lambda>v. Write 1 (v + 1) Return)) 0 0 []
        \<lparr>versionedData = [(1, [(0, 5 :: int)])], transactionQueue = [],
         globalClock = 0, activeTransactions = 0\<rparr>) = 10"
proof -
  let ?L = "Read 100 (\<lambda>v :: int. Write 100 (v + 1) Return)"
  let ?ds = "[(100 :: nat, \<lparr>content = 5 :: int, modificationCount = 0\<rparr>)]"
  let ?advM = "\<lambda>(n :: nat) s. snd (finalizeTransaction \<lparr>readLog = [], writeBuffer = [(100, 0 :: int)]\<rparr> s)"
  let ?F = "Read 1 (\<lambda>v :: int. Write 1 (v + 1) Return)"
  let ?sys = "\<lparr>versionedData = [(1, [(0, 5 :: int)])], transactionQueue = [],
               globalClock = 0, activeTransactions = 0\<rparr>"
  let ?once = "\<lambda>(n :: nat) s. if n = 0
                then snd (commit \<lparr>readSet = [], writeSet = [(1, 9 :: int)], startTimestamp = 0\<rparr> s)
                else s"
  let ?adv = "\<lambda>(n :: nat) s. snd (commit \<lparr>readSet = [], writeSet = [(1, 9 :: int)], startTimestamp = 0\<rparr> s)"
  have h1: "fst (executeTransaction (\<lambda>n s. s) ?L ?ds) = Inr ()" by code_simp
  have h2: "fst (executeTransaction ?advM ?L ?ds)
            = Inl (runtime_error ''Transaction failed after multiple attempts'')" by code_simp
  have h3: "success (retryLoop ?once ?F 0 0 [] ?sys)" by code_simp
  have h3': "attempts (retryLoop ?once ?F 0 0 [] ?sys) = 1" by code_simp
  have h4: "\<not> success (retryLoop ?adv ?F 0 0 [] ?sys)" by code_simp
  note a = retry_budget[where envM = "\<lambda>n s. s" and l = ?L and ds = ?ds]
  note b = retry_budget[where envM = ?advM and l = ?L and ds = ?ds]
  note c = retry_budget[where env = ?once and l = ?F and sys = ?sys]
  note d = retry_budget[where env = ?adv and l = ?F and sys = ?sys]
  have c1: "\<exists>(m :: nat) s tx. m < 3
              \<and> runLogic (\<lambda>tx. fetch tx s) store ?L newMemoryTransaction = Inr tx
              \<and> finalizeTransaction tx s
                  = (True, snd (snd (executeTransaction (\<lambda>n s. s) ?L ?ds)))"
    using a h1 by blast
  have c2: "fst (snd (executeTransaction ?advM ?L ?ds)) \<le> 3"
    using b by blast
  have c3: "closureCalls (retryLoop ?once ?F 0 0 [] ?sys) = 2"
    using c h3 h3' by simp
  have c4: "closureCalls (retryLoop ?adv ?F 0 0 [] ?sys) = 10"
    using d h4 by simp
  show ?thesis using h1 h2 h3 h4 c1 c2 c3 c4 by simp
qed

section \<open>Timestamps within a cell\<close>

text \<open>
  \<^verbatim>\<open>commit\<close> keeps the timestamps of every cell strictly increasing, as long as the
  clock bounds the timestamps and has not reached its last value (the write set of a
  transaction is a \<^verbatim>\<open>std::map\<close>, so its keys are distinct); so does \<^verbatim>\<open>createAccount\<close> on
  an absent key.
\<close>

lemma sorted_wrt_snoc_less:
  fixes vs :: "(32 word \<times> 'v) list"
  shows "sorted_wrt (<) (map fst vs) \<Longrightarrow> \<forall>a \<in> set vs. fst a < e
         \<Longrightarrow> sorted_wrt (<) (map fst (vs @ [(e, v)]))"
  by (simp add: sorted_wrt_append)

lemma subscript_cases: "subscript m k = [] \<or> (k, subscript m k) \<in> set m"
  by (cases "map_of m k") (auto simp: subscript_def dest: map_of_SomeD)

lemma applyWriteSet_ascending:
  fixes vd :: "(nat \<times> (32 word \<times> 'v) list) list"
  shows "distinct (map fst entries)
   \<Longrightarrow> \<forall>(k, vs) \<in> set vd. sorted_wrt (<) (map fst vs)
          \<and> (k \<in> fst ` set entries \<longrightarrow> (\<forall>a \<in> set vs. fst a < e))
   \<Longrightarrow> \<forall>(k, vs) \<in> set (applyWriteSet entries e vd). sorted_wrt (<) (map fst vs)"
proof (induction entries e vd rule: applyWriteSet.induct)
  case (1 e vd)
  then show ?case by auto
next
  case (2 accountId newBalance entries e vd)
  let ?new = "subscript vd accountId @ [(e, newBalance)]"
  let ?vd = "map_assign vd accountId ?new"
  have old: "sorted_wrt (<) (map fst (subscript vd accountId))
             \<and> (\<forall>a \<in> set (subscript vd accountId). fst a < e)"
    using subscript_cases[of vd accountId] "2.prems"(2) by fastforce
  then have new: "sorted_wrt (<) (map fst ?new)"
    using sorted_wrt_snoc_less[of "subscript vd accountId" e newBalance] by blast
  have d: "distinct (map fst entries)" and notin: "accountId \<notin> fst ` set entries"
    using "2.prems"(1) by auto
  have "\<forall>(k, vs) \<in> set ?vd. sorted_wrt (<) (map fst vs)
          \<and> (k \<in> fst ` set entries \<longrightarrow> (\<forall>a \<in> set vs. fst a < e))"
  proof (intro ballI, clarify)
    fix k vs assume m: "(k, vs) \<in> set ?vd"
    then have "(k, vs) \<in> set vd \<or> (k = accountId \<and> vs = ?new)"
      using set_map_assign[of vd accountId ?new] by auto
    then show "sorted_wrt (<) (map fst vs)
          \<and> (k \<in> fst ` set entries \<longrightarrow> (\<forall>a \<in> set vs. fst a < e))"
    proof
      assume "(k, vs) \<in> set vd"
      then show ?thesis using "2.prems"(2) by fastforce
    next
      assume "k = accountId \<and> vs = ?new"
      then show ?thesis using new notin by blast
    qed
  qed
  from "2.IH"[OF d this] show ?case by simp
qed

lemma word_lt_succ: "(c :: 32 word) \<noteq> - 1 \<Longrightarrow> x \<le> c \<Longrightarrow> x < c + 1"
  using inc_less_eq_self_iff_eq[of c] by (meson leI le_less_trans)

lemma commit_keeps_versions_ascending:
  assumes "globalClock sys \<noteq> - 1" and "timestampsBelowClock sys"
    and "versionsAscending (versionedData sys)" and "distinct (map fst (writeSet tx))"
  shows "versionsAscending (versionedData (snd (commit tx sys)))"
proof -
  let ?e = "globalClock sys + 1"
  let ?r = "validateReadSet (readSet tx) ?e (versionedData sys)"
  have old: "\<forall>(k, vs) \<in> set (versionedData sys).
               sorted_wrt (<) (map fst vs) \<and> (\<forall>a \<in> set vs. fst a < ?e)"
    using assms(1,2,3) word_lt_succ
    by (fastforce simp: timestampsBelowClock_def versionsAscending_def list_all_iff)
  have mid: "\<forall>(k, vs) \<in> set (snd ?r).
               sorted_wrt (<) (map fst vs) \<and> (\<forall>a \<in> set vs. fst a < ?e)"
    using validateReadSet_entries[of _ _ "readSet tx" ?e "versionedData sys"] old by fastforce
  show ?thesis
  proof (cases "fst ?r")
    case False
    then show ?thesis using mid
      by (auto simp: commit_def Let_def versionsAscending_def list_all_iff)
  next
    case True
    have "\<forall>(k, vs) \<in> set (applyWriteSet (writeSet tx) ?e (snd ?r)). sorted_wrt (<) (map fst vs)"
      by (rule applyWriteSet_ascending[OF assms(4)]) (use mid in fastforce)
    then show ?thesis using True
      by (auto simp: commit_def Let_def versionsAscending_def list_all_iff)
  qed
qed

lemma createAccount_absent_keeps_versions_ascending:
  assumes "map_of (versionedData sys) accountId = None" and "versionsAscending (versionedData sys)"
    and "createAccount sys accountId initialBalance = Inr sys'"
  shows "versionsAscending (versionedData sys')"
proof -
  have "versionedData sys' = map_assign (versionedData sys) accountId [(0, initialBalance)]"
    using assms(1,3) by (auto simp: createAccount_def subscript_def)
  then show ?thesis
    using assms(2) set_map_assign[of "versionedData sys" accountId "[(0, initialBalance)]"]
    by (fastforce simp: versionsAscending_def list_all_iff)
qed

text \<open>
  Claim C9 at its failing input: \<^verbatim>\<open>createAccount\<close> called twice on key 1. The second call
  appends a second version with timestamp 0, so the timestamps of the cell no longer
  strictly increase.
\<close>

theorem createAccount_twice_breaks_timestamp_order:
  "createAccount \<lparr>versionedData = [], transactionQueue = [], globalClock = 0,
                   activeTransactions = 0\<rparr> 1 (100 :: int)
     = Inr \<lparr>versionedData = [(1, [(0, 100)])], transactionQueue = [], globalClock = 0,
            activeTransactions = 0\<rparr>
   \<and> createAccount \<lparr>versionedData = [(1, [(0, 100 :: int)])], transactionQueue = [],
                     globalClock = 0, activeTransactions = 0\<rparr> 1 50
     = Inr \<lparr>versionedData = [(1, [(0, 100), (0, 50)])], transactionQueue = [], globalClock = 0,
            activeTransactions = 0\<rparr>
   \<and> versionsAscending [(1, [(0, 100 :: int)])]
   \<and> \<not> versionsAscending [(1, [(0, 100 :: int), (0, 50)])]"
  by (simp add: createAccount_def subscript_def versionsAscending_def)

end
